theory Spec2Isabelle
  imports Main "HOL-Library.Char_ord" "HOL-Library.List_Lexorder"
begin

section \<open>Strings and POSIX paths\<close>

text \<open>
  Python strings are modelled as \<open>string\<close> (a list of 8-bit characters), and the path
  functions of \<open>os.path\<close> are the POSIX ones (\<open>os.sep = "/"\<close>), transcribed from CPython's
  \<open>posixpath\<close> and \<open>genericpath\<close>. On POSIX \<open>.replace(os.sep, "/")\<close> is the identity and
  is left out.
\<close>

definition is_space :: "char \<Rightarrow> bool" where
  \<comment> \<open>\<open>str.isspace\<close> on code points below 256\<close>
  "is_space c = (let n = (of_char c :: nat) in
     (9 \<le> n \<and> n \<le> 13) \<or> (28 \<le> n \<and> n \<le> 32) \<or> n = 133 \<or> n = 160)"

definition strip :: "string \<Rightarrow> string" where
  "strip s = rev (dropWhile is_space (rev (dropWhile is_space s)))"

definition rstrip :: "char \<Rightarrow> string \<Rightarrow> string" where
  "rstrip c s = rev (dropWhile (\<lambda>x. x = c) (rev s))"

definition replace_char :: "char \<Rightarrow> char \<Rightarrow> string \<Rightarrow> string" where
  "replace_char a b s = map (\<lambda>x. if x = a then b else x) s"

definition lower_char :: "char \<Rightarrow> char" where
  "lower_char c = (let n = (of_char c :: nat) in
     if 65 \<le> n \<and> n \<le> 90 then char_of (n + 32) else c)"

definition lower :: "string \<Rightarrow> string" where
  "lower s = map lower_char s"

definition startswith :: "string \<Rightarrow> string \<Rightarrow> bool" where
  "startswith s p = (take (length p) s = p)"

fun sep_join :: "string \<Rightarrow> string list \<Rightarrow> string" where
  \<comment> \<open>\<open>sep.join(parts)\<close>\<close>
  "sep_join sep [] = []"
| "sep_join sep [x] = x"
| "sep_join sep (x # y # ys) = x @ sep @ sep_join sep (y # ys)"

fun split_sep :: "string \<Rightarrow> string list" where
  \<comment> \<open>\<open>s.split("/")\<close>\<close>
  "split_sep [] = [[]]"
| "split_sep (c # cs) =
     (if c = CHR ''/'' then [] # split_sep cs
      else (case split_sep cs of [] \<Rightarrow> [[c]] | x # xs \<Rightarrow> (c # x) # xs))"

definition path_join :: "string \<Rightarrow> string \<Rightarrow> string" where
  \<comment> \<open>\<open>os.path.join(a, b)\<close>: an absolute second component discards the first\<close>
  "path_join a b =
     (if startswith b ''/'' then b
      else if a = [] \<or> last a = CHR ''/'' then a @ b
      else a @ ''/'' @ b)"

definition basename :: "string \<Rightarrow> string" where
  "basename p = rev (takeWhile (\<lambda>c. c \<noteq> CHR ''/'') (rev p))"

definition splitext :: "string \<Rightarrow> string \<times> string" where
  \<comment> \<open>\<open>os.path.splitext\<close>: the extension starts at the last dot of the last component,
      unless only dots precede it there\<close>
  "splitext p =
     (let b = basename p;
          e = rev (takeWhile (\<lambda>c. c \<noteq> CHR ''.'') (rev b));
          stem = take (length b - Suc (length e)) b
      in if CHR ''.'' \<in> set b \<and> (\<exists>c \<in> set stem. c \<noteq> CHR ''.'')
         then (take (length p - Suc (length e)) p, CHR ''.'' # e)
         else (p, []))"

definition initial_slashes :: "string \<Rightarrow> nat" where
  "initial_slashes p =
     (if \<not> startswith p ''/'' then 0
      else if startswith p ''//'' \<and> \<not> startswith p ''///'' then 2
      else 1)"

definition norm_step :: "nat \<Rightarrow> string list \<Rightarrow> string \<Rightarrow> string list" where
  "norm_step init new_comps part =
     (if part = [] \<or> part = ''.'' then new_comps
      else if part \<noteq> ''..'' \<or> (init = 0 \<and> new_comps = [])
              \<or> (new_comps \<noteq> [] \<and> last new_comps = ''..'')
           then new_comps @ [part]
      else if new_comps \<noteq> [] then butlast new_comps
      else new_comps)"

definition normpath :: "string \<Rightarrow> string" where
  "normpath p =
     (if p = [] then ''.''
      else let init = initial_slashes p;
               comps = foldl (norm_step init) [] (split_sep p);
               q = replicate init (CHR ''/'') @ sep_join ''/'' comps
           in if q = [] then ''.'' else q)"

definition abspath :: "string \<Rightarrow> string \<Rightarrow> string" where
  \<comment> \<open>\<open>os.path.abspath\<close>, with the current directory as first argument\<close>
  "abspath cwd p = normpath (if startswith p ''/'' then p else path_join cwd p)"

fun commonprefix :: "'a list \<Rightarrow> 'a list \<Rightarrow> 'a list" where
  "commonprefix (x # xs) (y # ys) = (if x = y then x # commonprefix xs ys else [])"
| "commonprefix _ _ = []"

definition relpath :: "string \<Rightarrow> string \<Rightarrow> string \<Rightarrow> string" where
  \<comment> \<open>\<open>os.path.relpath(path, start)\<close>, with the current directory as first argument.
      Python raises \<open>ValueError\<close> on an empty \<open>path\<close>; no path this program passes is
      empty (lemmas \<open>recognised_nonempty\<close>, \<open>routed_nonempty\<close>, \<open>probe_nonempty\<close>), so
      that branch is left out.\<close>
  "relpath cwd path start =
     (let start_list = filter (\<lambda>x. x \<noteq> []) (split_sep (abspath cwd start));
          path_list = filter (\<lambda>x. x \<noteq> []) (split_sep (abspath cwd path));
          i = length (commonprefix start_list path_list);
          rel_list = replicate (length start_list - i) ''..'' @ drop i path_list
      in if rel_list = [] then ''.''
         else foldl path_join (hd rel_list) (tl rel_list))"

definition EXT_LANG_MAP :: "string \<rightharpoonup> string" where
  "EXT_LANG_MAP = map_of
     [(''.py'', ''python''), (''.js'', ''javascript''), (''.jsx'', ''javascript''),
      (''.ts'', ''typescript''), (''.tsx'', ''typescript'')]"


section \<open>The canonical records of \<open>ingest_structure.py\<close>\<close>

text \<open>
  Each extractor returns a dictionary with the keys \<open>file\<close>, \<open>functions\<close>, \<open>classes\<close>,
  \<open>imports\<close>, \<open>function_calls\<close> and \<open>endpoints\<close>; the inner dictionaries are records too.
  \<open>None\<close> in an optional field is \<open>None\<close> here.
\<close>

record file_info =
  fi_path :: string
  fi_name :: string

record function_info =
  fn_name :: string
  fn_file :: string

record class_info =
  cl_name :: string
  cl_bases :: "string list"
  cl_file :: string

record call_site =
  fc_caller :: "string option"
  fc_caller_file :: string
  fc_called :: string
  fc_called_file :: "string option"

record endpoint_info =
  ep_name :: string
  ep_file :: string
  ep_decorator :: string

record parsed =
  p_file :: file_info
  p_functions :: "function_info list"
  p_classes :: "class_info list"
  p_imports :: "string list"
  p_function_calls :: "call_site list"
  p_endpoints :: "endpoint_info list"

section \<open>Exceptions\<close>

text \<open>
  Where a call of the program can raise and a handler of the program catches the
  exception, the result is an option (\<open>None\<close> in the handler's branch). An exception that
  no handler catches leaves \<open>run_ingestion\<close> and ends the run: \<open>main\<close> has a
  \<open>try\<close>/\<open>finally\<close> only. A computation that can raise such an exception returns
  \<open>Inl\<close> of it, or \<open>Inr\<close> of its value. The calls outside every \<open>try\<close> block that
  recurse on their input are \<open>ast.dump\<close> and the generator \<open>walk\<close>; both run out of
  stack frames on a deep input.
\<close>

datatype exn = RecursionError

fun map_exn :: "('a \<Rightarrow> exn + 'b) \<Rightarrow> 'a list \<Rightarrow> exn + 'b list" where
  \<comment> \<open>a loop that appends the value of each item: the first exception leaves it\<close>
  "map_exn f [] = Inr []"
| "map_exn f (x # xs) =
     (case f x of
        Inl e \<Rightarrow> Inl e
      | Inr v \<Rightarrow> (case map_exn f xs of Inl e \<Rightarrow> Inl e | Inr vs \<Rightarrow> Inr (v # vs)))"

fun fold_exn :: "('s \<Rightarrow> 'a \<Rightarrow> exn + 's) \<Rightarrow> 's \<Rightarrow> 'a list \<Rightarrow> exn + 's" where
  \<comment> \<open>a loop that updates a state with each item: the first exception leaves it\<close>
  "fold_exn f s [] = Inr s"
| "fold_exn f s (x # xs) = (case f s x of Inl e \<Rightarrow> Inl e | Inr s' \<Rightarrow> fold_exn f s' xs)"

section \<open>The outside world\<close>

text \<open>
  The syntax trees of Python's \<open>ast\<close> module, cut down to the node classes the extractor
  tests with \<open>isinstance\<close>; every other class (\<open>AsyncFunctionDef\<close> included, which is not
  a subclass of \<open>FunctionDef\<close>) is \<open>Other\<close> with its child nodes. The fields follow
  \<open>_fields\<close> order: \<open>Call func (args @ keywords)\<close>,
  \<open>ClassDef name bases (keywords @ body @ decorator_list)\<close>,
  \<open>FunctionDef name args body decorator_list (returns, type parameters)\<close>. The leaf nodes
  \<open>alias\<close> and the expression contexts (\<open>Load\<close>, \<open>Store\<close>) match no test of the
  extractor and are not listed among the children.
\<close>

datatype py_ast =
    Name string
  | Attribute py_ast string
  | Call py_ast "py_ast list"
  | Import "string list"
  | ImportFrom "string option" "string list"
  | ClassDef string "py_ast list" "py_ast list"
  | FunctionDef string py_ast "py_ast list" "py_ast list" "py_ast list"
  | Other "py_ast list"

text \<open>
  A node of a tree-sitter concrete syntax tree: its type, the decoded text of its byte
  span, the child in its field \<open>name\<close> (\<open>child_by_field_name("name")\<close>) and its children.
\<close>

datatype ts_node =
  TSNode (ts_type: string) (ts_text: string) (ts_name: "ts_node option")
         (ts_children: "ts_node list")

datatype open_mode = Utf8_strict | Binary | Utf8_ignore

text \<open>The six regular expressions of the heuristic extractor, in source order.\<close>

datatype pattern =
  Re_import | Re_require | Re_function | Re_assigned_function | Re_class | Re_call

text \<open>
  What the program reads from its environment: the module-level \<open>REPO_ROOT\<close> and
  \<open>LANGUAGE_PARSERS\<close> (a parser maps the file's bytes to a root node, \<open>None\<close> when it
  raises), the current directory, the directory walk (\<open>root\<close> and \<open>files\<close> of each triple
  \<open>os.walk\<close> yields, in order), reading a file (\<open>None\<close> when \<open>open\<close> or \<open>read\<close> raises),
  \<open>os.path.isfile\<close>, \<open>ast.parse\<close> (\<open>None\<close> when it raises), \<open>ast.dump\<close> (the string, or
  the exception it raises), \<open>re.finditer\<close> (group 1 of every match, in order), and the
  number of nested frames of the generator \<open>walk\<close> the interpreter allows
  (\<open>sys.getrecursionlimit()\<close> less the frames in use when \<open>walk\<close> is first resumed).
  File names and contents are taken as the strings the program sees.
\<close>

record world =
  REPO_ROOT :: string
  LANGUAGE_PARSERS :: "string \<Rightarrow> (string \<Rightarrow> ts_node option) option"
  getcwd :: string
  os_walk :: "string \<Rightarrow> (string \<times> string list) list"
  open_read :: "open_mode \<Rightarrow> string \<Rightarrow> string option"
  isfile :: "string \<Rightarrow> bool"
  ast_parse :: "string \<Rightarrow> py_ast option"
  ast_dump :: "py_ast \<Rightarrow> exn + string"
  re_finditer :: "pattern \<Rightarrow> string \<Rightarrow> string list"
  recursion_limit :: nat

definition rel_to :: "world \<Rightarrow> string \<Rightarrow> string \<Rightarrow> string" where
  \<comment> \<open>\<open>os.path.relpath(filepath, start).replace(os.sep, "/")\<close>\<close>
  "rel_to w filepath start = relpath (getcwd w) filepath start"

definition file_info_of :: "world \<Rightarrow> string \<Rightarrow> string \<Rightarrow> file_info" where
  "file_info_of w filepath start =
     \<lparr>fi_path = rel_to w filepath start, fi_name = basename filepath\<rparr>"

section \<open>The native Python extractor\<close>

fun iter_child_nodes :: "py_ast \<Rightarrow> py_ast list" where
  "iter_child_nodes (Name i) = []"
| "iter_child_nodes (Attribute v a) = [v]"
| "iter_child_nodes (Call f rest) = f # rest"
| "iter_child_nodes (Import names) = []"
| "iter_child_nodes (ImportFrom m names) = []"
| "iter_child_nodes (ClassDef n bases rest) = bases @ rest"
| "iter_child_nodes (FunctionDef n args body decorator_list rest) =
     args # body @ decorator_list @ rest"
| "iter_child_nodes (Other cs) = cs"

function walk_queue :: "py_ast list \<Rightarrow> py_ast list" where
  \<comment> \<open>the loop of \<open>ast.walk\<close>: pop the queue's head, append its children, yield it\<close>
  "walk_queue [] = []"
| "walk_queue (n # todo) = n # walk_queue (todo @ iter_child_nodes n)"
  by pat_completeness auto
termination
proof (relation "measure (\<lambda>todo. sum_list (map (\<lambda>c. Suc (size c)) todo))")
  show "wf (measure (\<lambda>todo. sum_list (map (\<lambda>c. Suc (size c)) todo)))" by simp
next
  fix n :: py_ast and todo :: "py_ast list"
  have le: "sum_list (map (\<lambda>c. Suc (size c)) xs) = size_list size xs" for xs :: "py_ast list"
    by (induction xs) auto
  have "sum_list (map (\<lambda>c. Suc (size c)) (iter_child_nodes n)) \<le> size n"
    by (cases n) (simp_all add: le)
  then show "(todo @ iter_child_nodes n, n # todo)
          \<in> measure (\<lambda>todo. sum_list (map (\<lambda>c. Suc (size c)) todo))"
    by simp
qed

definition ast_walk :: "py_ast \<Rightarrow> py_ast list" where
  "ast_walk node = walk_queue [node]"

fun dotted_parts :: "py_ast \<Rightarrow> string list" where
  \<comment> \<open>the \<open>while isinstance(curr, ast.Attribute)\<close> loop: attribute names outermost last,
      preceded by the innermost \<open>Name\<close> when there is one\<close>
  "dotted_parts (Attribute v a) = dotted_parts v @ [a]"
| "dotted_parts (Name i) = [i]"
| "dotted_parts _ = []"

definition base_name :: "world \<Rightarrow> py_ast \<Rightarrow> exn + string" where
  \<comment> \<open>the body of \<open>for base in node.bases\<close>; \<open>ast.dump(base)\<close> is in no \<open>try\<close> block\<close>
  "base_name w b =
     (case b of
        Name i \<Rightarrow> Inr i
      | Attribute v a \<Rightarrow> Inr (sep_join ''.'' (dotted_parts b))
      | _ \<Rightarrow> ast_dump w b)"

definition called_name :: "py_ast \<Rightarrow> string option" where
  \<comment> \<open>the variable \<open>called\<close> for a call whose \<open>func\<close> is the argument\<close>
  "called_name f =
     (case f of
        Name i \<Rightarrow> Some i
      | Attribute v a \<Rightarrow> Some (sep_join ''.'' (dotted_parts f))
      | _ \<Rightarrow> None)"

definition HTTP_METHODS :: "string list" where
  "HTTP_METHODS = [''get'', ''post'', ''put'', ''delete'', ''patch'']"

definition decorator_endpoints :: "string \<Rightarrow> string \<Rightarrow> py_ast \<Rightarrow> endpoint_info list" where
  \<comment> \<open>the body of \<open>for dec in node.decorator_list\<close>\<close>
  "decorator_endpoints fname rel_path dec =
     (case dec of
        Call (Attribute v attr) rest \<Rightarrow>
          (let dec_name = lower attr
           in if dec_name \<in> set HTTP_METHODS
              then [\<lparr>ep_name = fname, ep_file = rel_path, ep_decorator = dec_name\<rparr>]
              else [])
      | _ \<Rightarrow> [])"

definition node_imports :: "py_ast \<Rightarrow> string list" where
  "node_imports node =
     (case node of
        Import names \<Rightarrow> names
      | ImportFrom m names \<Rightarrow>
          (let module = (case m of None \<Rightarrow> [] | Some s \<Rightarrow> s)
           in map (\<lambda>alias. if module \<noteq> [] then module @ ''.'' @ alias else alias) names)
      | _ \<Rightarrow> [])"

definition node_classes :: "world \<Rightarrow> string \<Rightarrow> py_ast \<Rightarrow> exn + class_info list" where
  "node_classes w rel_path node =
     (case node of
        ClassDef n bases rest \<Rightarrow>
          (case map_exn (base_name w) bases of
             Inl e \<Rightarrow> Inl e
           | Inr base_names \<Rightarrow>
               Inr [\<lparr>cl_name = n, cl_bases = base_names, cl_file = rel_path\<rparr>])
      | _ \<Rightarrow> Inr [])"

definition node_functions :: "string \<Rightarrow> py_ast \<Rightarrow> function_info list" where
  "node_functions rel_path node =
     (case node of
        FunctionDef n args body decorator_list rest \<Rightarrow> [\<lparr>fn_name = n, fn_file = rel_path\<rparr>]
      | _ \<Rightarrow> [])"

definition node_endpoints :: "string \<Rightarrow> py_ast \<Rightarrow> endpoint_info list" where
  "node_endpoints rel_path node =
     (case node of
        FunctionDef n args body decorator_list rest \<Rightarrow>
          concat (map (decorator_endpoints n rel_path) decorator_list)
      | _ \<Rightarrow> [])"

definition is_FunctionDef :: "py_ast \<Rightarrow> bool" where
  "is_FunctionDef node = (case node of FunctionDef n a b d r \<Rightarrow> True | _ \<Rightarrow> False)"

definition def_name :: "py_ast \<Rightarrow> string" where
  "def_name node = (case node of FunctionDef n a b d r \<Rightarrow> n | _ \<Rightarrow> [])"

definition sub_calls :: "string \<Rightarrow> string \<Rightarrow> py_ast \<Rightarrow> call_site list" where
  \<comment> \<open>the body of \<open>for sub in ast.walk(func_node)\<close>\<close>
  "sub_calls caller_name caller_file sub =
     (case sub of
        Call f rest \<Rightarrow>
          (case called_name f of
             None \<Rightarrow> []
           | Some c \<Rightarrow>
               if c \<noteq> []
               then [\<lparr>fc_caller = Some caller_name, fc_caller_file = caller_file,
                      fc_called = c, fc_called_file = None\<rparr>]
               else [])
      | _ \<Rightarrow> [])"

definition func_calls :: "string \<Rightarrow> py_ast \<Rightarrow> call_site list" where
  \<comment> \<open>one entry of \<open>func_defs\<close>: every call below the function node\<close>
  "func_calls rel_path func_node =
     concat (map (sub_calls (def_name func_node) rel_path) (ast_walk func_node))"

definition parse_python_file :: "world \<Rightarrow> string \<Rightarrow> exn + parsed option" where
  \<comment> \<open>\<open>Inr None\<close> where the function returns \<open>None\<close>, \<open>Inl\<close> where the loop over the
      nodes is left by the exception of an \<open>ast.dump\<close>; the other branches of that loop
      and the loop over \<open>func_defs\<close> raise nothing\<close>
  "parse_python_file w filepath =
     (case open_read w Utf8_strict filepath of
        None \<Rightarrow> Inr None
      | Some source \<Rightarrow>
          (case ast_parse w source of
             None \<Rightarrow> Inr None
           | Some tree \<Rightarrow>
               (let rel_path = rel_to w filepath (REPO_ROOT w);
                    nodes = ast_walk tree;
                    func_defs = filter is_FunctionDef nodes
                in case map_exn (node_classes w rel_path) nodes of
                     Inl e \<Rightarrow> Inl e
                   | Inr classes \<Rightarrow>
                       Inr (Some
                         \<lparr>p_file = file_info_of w filepath (REPO_ROOT w),
                          p_functions = concat (map (node_functions rel_path) nodes),
                          p_classes = concat classes,
                          p_imports = concat (map node_imports nodes),
                          p_function_calls = concat (map (func_calls rel_path) func_defs),
                          p_endpoints = concat (map (node_endpoints rel_path) nodes)\<rparr>))))"


section \<open>The grammar-based extractor\<close>

definition IMPORT_TYPES :: "string list" where
  "IMPORT_TYPES = [''import_statement'', ''import_clause'', ''import_declaration'']"

definition FUNCTION_TYPES :: "string list" where
  "FUNCTION_TYPES = [''function_declaration'', ''method_definition'', ''arrow_function'']"

definition CLASS_TYPES :: "string list" where
  "CLASS_TYPES = [''class_declaration'', ''class_definition'']"

definition CALL_TYPES :: "string list" where
  "CALL_TYPES = [''call_expression'', ''call'', ''member_expression'']"

definition HERITAGE_TYPES :: "string list" where
  "HERITAGE_TYPES = [''extends_clause'', ''heritage_clause'', ''superclass'']"

datatype ts_branch = Import_branch | Function_branch | Class_branch | Call_branch | No_branch

definition ts_branch_of :: "ts_node \<Rightarrow> ts_branch" where
  \<comment> \<open>which arm of the \<open>if\<close>/\<open>elif\<close> chain a node takes\<close>
  "ts_branch_of node =
     (if ts_type node \<in> set IMPORT_TYPES then Import_branch
      else if ts_type node \<in> set FUNCTION_TYPES then Function_branch
      else if ts_type node \<in> set CLASS_TYPES then Class_branch
      else if ts_type node \<in> set CALL_TYPES then Call_branch
      else No_branch)"

text \<open>
  The generator \<open>walk\<close> yields every descendant of a node in pre-order; each is paired
  here with the chain of its \<open>parent\<close> links, nearest first. \<open>walk(node)\<close> runs in a frame
  of its own below the frame of the \<open>yield from\<close> that resumes it, for a leaf too, so a
  node at depth \<open>d\<close> below the root is reached with \<open>d + 1\<close> nested frames.
  \<open>walk room anc node\<close> is \<open>walk(node)\<close> with \<open>room\<close> frames left; with none left the
  interpreter raises \<open>RecursionError\<close>. What the loop over \<open>walk(root)\<close> has collected by
  then is lost with the frame of \<open>parse_with_treesitter\<close>.
\<close>

fun walk :: "nat \<Rightarrow> ts_node list \<Rightarrow> ts_node \<Rightarrow> exn + (ts_node \<times> ts_node list) list"
  and walk_children ::
    "nat \<Rightarrow> ts_node list \<Rightarrow> ts_node list \<Rightarrow> exn + (ts_node \<times> ts_node list) list"
where
  "walk 0 anc node = Inl RecursionError"
| "walk (Suc room) anc node = walk_children room (node # anc) (ts_children node)"
| "walk_children room anc [] = Inr []"
| "walk_children room anc (child # rest) =
     (case walk room anc child of
        Inl e \<Rightarrow> Inl e
      | Inr below \<Rightarrow>
          (case walk_children room anc rest of
             Inl e \<Rightarrow> Inl e
           | Inr others \<Rightarrow> Inr ((child, anc) # below @ others)))"

definition first_identifier :: "ts_node \<Rightarrow> string option" where
  \<comment> \<open>the text of the first child of type \<open>identifier\<close>\<close>
  "first_identifier node =
     (case filter (\<lambda>c. ts_type c = ''identifier'') (ts_children node) of
        [] \<Rightarrow> None
      | c # cs \<Rightarrow> Some (ts_text c))"

definition ts_functions :: "string \<Rightarrow> ts_node \<Rightarrow> function_info list" where
  "ts_functions rel_path node =
     (let fname = (case ts_name node of
                     Some name_node \<Rightarrow> Some (ts_text name_node)
                   | None \<Rightarrow> first_identifier node)
      in case fname of
           None \<Rightarrow> []
         | Some f \<Rightarrow> if f \<noteq> [] then [\<lparr>fn_name = f, fn_file = rel_path\<rparr>] else [])"

definition ts_classes :: "string \<Rightarrow> ts_node \<Rightarrow> class_info list" where
  "ts_classes rel_path node =
     (let cname = (case ts_name node of
                     Some name_node \<Rightarrow> ts_text name_node
                   | None \<Rightarrow> ''UnknownClass'');
          bases = concat (map (\<lambda>c. if ts_type c \<in> set HERITAGE_TYPES
                                    then map ts_text
                                           (filter (\<lambda>b. ts_type b = ''identifier'') (ts_children c))
                                    else [])
                              (ts_children node))
      in [\<lparr>cl_name = cname, cl_bases = bases, cl_file = rel_path\<rparr>])"

definition enclosing_caller :: "ts_node list \<Rightarrow> string option" where
  \<comment> \<open>the \<open>while tmp\<close> loop over a node and its ancestors: it stops at the first node of a
      function type and reads that node's \<open>name\<close> field\<close>
  "enclosing_caller chain =
     (case filter (\<lambda>n. ts_type n \<in> set FUNCTION_TYPES) chain of
        [] \<Rightarrow> None
      | f # fs \<Rightarrow> map_option ts_text (ts_name f))"

definition ts_calls :: "string \<Rightarrow> ts_node \<times> ts_node list \<Rightarrow> call_site list" where
  "ts_calls rel_path item =
     (case first_identifier (fst item) of
        None \<Rightarrow> []
      | Some called \<Rightarrow>
          if called \<noteq> []
          then (case enclosing_caller (fst item # snd item) of
                  None \<Rightarrow> []
                | Some caller \<Rightarrow>
                    if caller \<noteq> []
                    then [\<lparr>fc_caller = Some caller, fc_caller_file = rel_path,
                           fc_called = called, fc_called_file = None\<rparr>]
                    else [])
          else [])"

definition on_branch :: "ts_branch \<Rightarrow> (ts_node \<times> ts_node list) list \<Rightarrow> (ts_node \<times> ts_node list) list" where
  "on_branch b items = filter (\<lambda>item. ts_branch_of (fst item) = b) items"

definition parse_with_treesitter :: "world \<Rightarrow> string \<Rightarrow> string \<Rightarrow> exn + parsed option" where
  \<comment> \<open>\<open>Inr None\<close> where the function returns \<open>None\<close>, \<open>Inl\<close> where the loop over
      \<open>walk(root)\<close> is left by an exception. The counter \<open>SKIPPED_COUNTS\<close>, incremented
      where no parser is loaded, is only printed by \<open>main\<close> and is not part of the result.\<close>
  "parse_with_treesitter w filepath lang_key =
     (case LANGUAGE_PARSERS w lang_key of
        None \<Rightarrow> Inr None
      | Some parser \<Rightarrow>
          (case open_read w Binary filepath of
             None \<Rightarrow> Inr None
           | Some source_bytes \<Rightarrow>
               (case parser source_bytes of
                  None \<Rightarrow> Inr None
                | Some root \<Rightarrow>
                    (let rel_path = rel_to w filepath (REPO_ROOT w)
                     in case walk (recursion_limit w) [] root of
                          Inl e \<Rightarrow> Inl e
                        | Inr items \<Rightarrow>
                            Inr (Some
                              \<lparr>p_file = file_info_of w filepath (REPO_ROOT w),
                               p_functions =
                                 concat (map (\<lambda>item. ts_functions rel_path (fst item))
                                             (on_branch Function_branch items)),
                               p_classes =
                                 concat (map (\<lambda>item. ts_classes rel_path (fst item))
                                             (on_branch Class_branch items)),
                               p_imports =
                                 map (\<lambda>item. strip (ts_text (fst item)))
                                     (on_branch Import_branch items),
                               p_function_calls =
                                 concat (map (ts_calls rel_path) (on_branch Call_branch items)),
                               p_endpoints = []\<rparr>)))))"

section \<open>The heuristic lexical extractor\<close>

definition KEYWORD_BLOCKLIST :: "string list" where
  "KEYWORD_BLOCKLIST =
     [''if'', ''for'', ''while'', ''switch'', ''return'', ''function'', ''class'', ''new'',
      ''catch'', ''typeof'', ''await'', ''super'', ''constructor'', ''import'', ''export'',
      ''case'', ''delete'', ''in'', ''of'', ''do'', ''else'', ''try'', ''finally'', ''with'',
      ''yield'', ''void'', ''instanceof'']"

definition sorted_set :: "string list \<Rightarrow> string list" where
  \<comment> \<open>\<open>sorted(set(xs))\<close>\<close>
  "sorted_set xs = sort (remdups xs)"

definition parse_js_like_file :: "world \<Rightarrow> string \<Rightarrow> string \<Rightarrow> parsed option" where
  "parse_js_like_file w filepath lang_key =
     (case open_read w Utf8_ignore filepath of
        None \<Rightarrow> None
      | Some src \<Rightarrow>
          (let rel_path = rel_to w filepath (REPO_ROOT w);
               imports_set = re_finditer w Re_import src @ re_finditer w Re_require src;
               functions_set =
                 re_finditer w Re_function src @ re_finditer w Re_assigned_function src;
               classes_set = re_finditer w Re_class src;
               called_set =
                 filter (\<lambda>name. name \<notin> set KEYWORD_BLOCKLIST) (re_finditer w Re_call src)
           in Some
                \<lparr>p_file = file_info_of w filepath (REPO_ROOT w),
                 p_functions =
                   map (\<lambda>n. \<lparr>fn_name = n, fn_file = rel_path\<rparr>) (sorted_set functions_set),
                 p_classes =
                   map (\<lambda>n. \<lparr>cl_name = n, cl_bases = [], cl_file = rel_path\<rparr>)
                       (sorted_set classes_set),
                 p_imports = sorted_set imports_set,
                 p_function_calls =
                   map (\<lambda>n. \<lparr>fc_caller = None, fc_caller_file = rel_path,
                              fc_called = n, fc_called_file = None\<rparr>)
                       called_set,
                 p_endpoints = []\<rparr>))"

section \<open>The language router\<close>

definition parse_any_file :: "world \<Rightarrow> string \<Rightarrow> exn + parsed option" where
  \<comment> \<open>an exception of an extractor passes through: the router has no \<open>try\<close> block\<close>
  "parse_any_file w filepath =
     (case EXT_LANG_MAP (snd (splitext (lower filepath))) of
        None \<Rightarrow> Inr None
      | Some lang_key \<Rightarrow>
          if lang_key = ''python'' then parse_python_file w filepath
          else (case (if LANGUAGE_PARSERS w lang_key \<noteq> None
                      then parse_with_treesitter w filepath lang_key
                      else Inr None) of
                  Inl e \<Rightarrow> Inl e
                | Inr (Some ts_parsed) \<Rightarrow> Inr (Some ts_parsed)
                | Inr None \<Rightarrow> Inr (parse_js_like_file w filepath lang_key)))"


section \<open>The graph store and \<open>GraphIngestor\<close>\<close>

text \<open>
  The store holds nodes and relationships. A node is identified by its label and the
  properties its \<open>MERGE\<close> pattern names; the only other property, \<open>File.name\<close>, is kept in
  a map from paths. \<open>MERGE\<close> creates what its pattern does not match and nothing else.
\<close>

datatype node =
    File_node string
  | Class_node string string
  | Function_node string string
  | Endpoint_node string string string

datatype rel_type = DEFINED_IN | IMPORTS | CALLS | USED_IN | HANDLED_BY | EXTENDS

record graph =
  g_nodes :: "node list"
  g_edges :: "(node \<times> rel_type \<times> node) list"
  g_file_name :: "string \<rightharpoonup> string"

definition merge_node :: "node \<Rightarrow> graph \<Rightarrow> graph" where
  "merge_node n g = (if n \<in> set (g_nodes g) then g else g\<lparr>g_nodes := g_nodes g @ [n]\<rparr>)"

definition merge_edge :: "node \<Rightarrow> rel_type \<Rightarrow> node \<Rightarrow> graph \<Rightarrow> graph" where
  "merge_edge a r b g =
     (if (a, r, b) \<in> set (g_edges g) then g else g\<lparr>g_edges := g_edges g @ [(a, r, b)]\<rparr>)"

definition or_empty :: "string option \<Rightarrow> string" where
  \<comment> \<open>\<open>value or ""\<close>\<close>
  "or_empty v = (case v of None \<Rightarrow> [] | Some s \<Rightarrow> s)"

definition ingest_file :: "file_info \<Rightarrow> graph \<Rightarrow> graph" where
  "ingest_file file_info g =
     (let g1 = merge_node (File_node (fi_path file_info)) g
      in g1\<lparr>g_file_name := (g_file_name g1)(fi_path file_info \<mapsto> fi_name file_info)\<rparr>)"

definition ingest_class :: "class_info \<Rightarrow> graph \<Rightarrow> graph" where
  "ingest_class class_info g =
     (let c = Class_node (cl_name class_info) (cl_file class_info);
          f = File_node (cl_file class_info)
      in merge_edge c DEFINED_IN f (merge_node f (merge_node c g)))"

definition ingest_function :: "function_info \<Rightarrow> graph \<Rightarrow> graph" where
  "ingest_function func_info g =
     (let fun = Function_node (fn_name func_info) (fn_file func_info);
          f = File_node (fn_file func_info)
      in merge_edge fun DEFINED_IN f (merge_node f (merge_node fun g)))"

definition ingest_import :: "string \<Rightarrow> string \<Rightarrow> graph \<Rightarrow> graph" where
  "ingest_import from_file to_file_path g =
     (if to_file_path = [] then g
      else (let f1 = File_node from_file; f2 = File_node to_file_path
            in merge_edge f1 IMPORTS f2 (merge_node f2 (merge_node f1 g))))"

definition ingest_function_call ::
  "string \<Rightarrow> string \<Rightarrow> string \<Rightarrow> string option \<Rightarrow> graph \<Rightarrow> graph" where
  "ingest_function_call caller caller_file called called_file g =
     (let funA = Function_node caller caller_file;
          funB = Function_node called (or_empty called_file)
      in merge_edge funA CALLS funB (merge_node funB (merge_node funA g)))"

definition ingest_function_used_in ::
  "string \<Rightarrow> string option \<Rightarrow> string \<Rightarrow> graph \<Rightarrow> graph" where
  "ingest_function_used_in called called_file used_in_file g =
     (let fun = Function_node called (or_empty called_file);
          f = File_node used_in_file
      in merge_edge fun USED_IN f (merge_node f (merge_node fun g)))"

definition ingest_endpoint :: "endpoint_info \<Rightarrow> graph \<Rightarrow> graph" where
  "ingest_endpoint endpoint_info g =
     (let e = Endpoint_node (ep_name endpoint_info) (ep_file endpoint_info)
                (ep_decorator endpoint_info);
          fun = Function_node (ep_name endpoint_info) (ep_file endpoint_info)
      in merge_edge e HANDLED_BY fun (merge_node fun (merge_node e g)))"

definition ingest_class_extends ::
  "string \<Rightarrow> string \<Rightarrow> string \<Rightarrow> string option \<Rightarrow> graph \<Rightarrow> graph" where
  "ingest_class_extends child_name child_file parent_name parent_file g =
     (let child = Class_node child_name child_file;
          parent = Class_node parent_name (or_empty parent_file)
      in merge_edge child EXTENDS parent (merge_node parent (merge_node child g)))"

text \<open>
  \<open>run_ingestion\<close> receives the ingestor as an argument and only calls its methods; its
  effect on the store is the sequence of those calls, performed in order.
\<close>

datatype ingest_call =
    Ingest_file file_info
  | Ingest_class class_info
  | Ingest_function function_info
  | Ingest_import string string
  | Ingest_function_call string string string "string option"
  | Ingest_function_used_in string "string option" string
  | Ingest_endpoint endpoint_info
  | Ingest_class_extends string string string "string option"

fun perform :: "ingest_call \<Rightarrow> graph \<Rightarrow> graph" where
  "perform (Ingest_file fi) = ingest_file fi"
| "perform (Ingest_class ci) = ingest_class ci"
| "perform (Ingest_function fu) = ingest_function fu"
| "perform (Ingest_import a b) = ingest_import a b"
| "perform (Ingest_function_call a af c cf) = ingest_function_call a af c cf"
| "perform (Ingest_function_used_in c cf u) = ingest_function_used_in c cf u"
| "perform (Ingest_endpoint ep) = ingest_endpoint ep"
| "perform (Ingest_class_extends c cf p pf) = ingest_class_extends c cf p pf"

definition perform_all :: "ingest_call list \<Rightarrow> graph \<Rightarrow> graph" where
  "perform_all cs g = fold perform cs g"

section \<open>The pipeline: \<open>run_ingestion\<close>\<close>

type_synonym symtab = "string \<rightharpoonup> string"

definition scanned_files :: "world \<Rightarrow> string \<Rightarrow> (string \<times> string) list" where
  \<comment> \<open>\<open>for root, dirs, files in os.walk(repo_root): for fname in files\<close>\<close>
  "scanned_files w repo_root =
     concat (map (\<lambda>(root, files). map (\<lambda>fname. (root, fname)) files) (os_walk w repo_root))"

definition recognised :: "string \<Rightarrow> bool" where
  \<comment> \<open>\<open>os.path.splitext(fname)[1].lower() in EXT_LANG_MAP\<close>\<close>
  "recognised fname = (EXT_LANG_MAP (lower (snd (splitext fname))) \<noteq> None)"

definition degenerate :: "world \<Rightarrow> string \<Rightarrow> string \<Rightarrow> parsed" where
  "degenerate w repo_root full =
     \<lparr>p_file = file_info_of w full repo_root, p_functions = [], p_classes = [],
      p_imports = [], p_function_calls = [], p_endpoints = []\<rparr>"

definition parse_or_degenerate :: "world \<Rightarrow> string \<Rightarrow> string \<Rightarrow> exn + parsed" where
  \<comment> \<open>\<open>parsed = parse_any_file(full)\<close> and the fallback \<open>if parsed is None\<close>; the call
      is in no \<open>try\<close> block\<close>
  "parse_or_degenerate w repo_root full =
     (case parse_any_file w full of
        Inl e \<Rightarrow> Inl e
      | Inr None \<Rightarrow> Inr (degenerate w repo_root full)
      | Inr (Some parsed) \<Rightarrow> Inr parsed)"

definition add_functions :: "symtab \<Rightarrow> function_info list \<Rightarrow> symtab" where
  \<comment> \<open>\<open>for fun in parsed["functions"]: func_name_to_file[fun["name"]] = fun["file"]\<close>\<close>
  "add_functions tab funs = foldl (\<lambda>t fu. t(fn_name fu \<mapsto> fn_file fu)) tab funs"

definition visit_file ::
  "world \<Rightarrow> string \<Rightarrow> parsed list \<times> symtab \<Rightarrow> string \<times> string
     \<Rightarrow> exn + parsed list \<times> symtab" where
  \<comment> \<open>one iteration of the first pass\<close>
  "visit_file w repo_root acc item =
     (case acc of (parsed_all, func_name_to_file) \<Rightarrow>
      case item of (root, fname) \<Rightarrow>
        if recognised fname
        then (case parse_or_degenerate w repo_root (path_join root fname) of
                Inl e \<Rightarrow> Inl e
              | Inr parsed \<Rightarrow>
                  Inr (parsed_all @ [parsed],
                       add_functions func_name_to_file (p_functions parsed)))
        else Inr acc)"

definition first_pass :: "world \<Rightarrow> string \<Rightarrow> exn + parsed list \<times> symtab" where
  \<comment> \<open>\<open>parsed_all\<close> and \<open>func_name_to_file\<close> after the first loop, or the exception that
      left it\<close>
  "first_pass w repo_root =
     fold_exn (visit_file w repo_root) ([], Map.empty) (scanned_files w repo_root)"

definition IMPORT_EXTS :: "string list" where
  "IMPORT_EXTS = [''.py'', ''.js'', ''.ts'', ''.jsx'', ''.tsx'']"

definition import_candidate :: "string \<Rightarrow> string" where
  \<comment> \<open>\<open>imp.strip().rstrip(";").strip().replace(".", "/")\<close>\<close>
  "import_candidate imp =
     replace_char (CHR ''.'') (CHR ''/'') (strip (rstrip (CHR '';'') (strip imp)))"

definition probe :: "string \<Rightarrow> string \<Rightarrow> string \<Rightarrow> string" where
  \<comment> \<open>\<open>cand = os.path.join(repo_root, candidate + e)\<close>\<close>
  "probe repo_root candidate e = path_join repo_root (candidate @ e)"

definition resolve_import :: "world \<Rightarrow> string \<Rightarrow> string \<Rightarrow> string option" where
  \<comment> \<open>the variable \<open>to_path\<close> after the loop over the extensions\<close>
  "resolve_import w repo_root imp =
     (let candidate = import_candidate imp
      in case filter (\<lambda>e. isfile w (probe repo_root candidate e)) IMPORT_EXTS of
           [] \<Rightarrow> None
         | e # es \<Rightarrow> Some (rel_to w (probe repo_root candidate e) repo_root))"

definition import_calls :: "world \<Rightarrow> string \<Rightarrow> string \<Rightarrow> string \<Rightarrow> ingest_call list" where
  "import_calls w repo_root from_path imp =
     (case resolve_import w repo_root imp of
        None \<Rightarrow> []
      | Some to_path \<Rightarrow> if to_path \<noteq> [] then [Ingest_import from_path to_path] else [])"

definition resolved_called_file :: "symtab \<Rightarrow> call_site \<Rightarrow> string" where
  \<comment> \<open>\<open>func_name_to_file.get(fc["called"]) or fc.get("caller_file")\<close>\<close>
  "resolved_called_file tab fc =
     (case tab (fc_called fc) of
        None \<Rightarrow> fc_caller_file fc
      | Some f \<Rightarrow> if f \<noteq> [] then f else fc_caller_file fc)"

definition call_calls :: "symtab \<Rightarrow> call_site \<Rightarrow> ingest_call list" where
  "call_calls tab fc =
     (let resolved = resolved_called_file tab fc
      in (case fc_caller fc of
            None \<Rightarrow> []
          | Some caller \<Rightarrow>
              if caller \<noteq> []
              then [Ingest_function_call caller (fc_caller_file fc) (fc_called fc)
                      (Some resolved)]
              else [])
         @ [Ingest_function_used_in (fc_called fc) (Some resolved) (fc_caller_file fc)])"

definition class_calls :: "class_info \<Rightarrow> ingest_call list" where
  "class_calls cls =
     Ingest_class cls
       # map (\<lambda>base_name. Ingest_class_extends (cl_name cls) (cl_file cls) base_name None)
             (filter (\<lambda>base_name. base_name \<noteq> []) (cl_bases cls))"

definition ingest_parsed :: "world \<Rightarrow> string \<Rightarrow> symtab \<Rightarrow> parsed \<Rightarrow> ingest_call list" where
  \<comment> \<open>one iteration of the second pass when \<open>dry_run\<close> is false\<close>
  "ingest_parsed w repo_root tab parsed =
     Ingest_file (p_file parsed)
       # concat (map class_calls (p_classes parsed))
       @ map Ingest_function (p_functions parsed)
       @ map Ingest_endpoint (p_endpoints parsed)
       @ concat (map (import_calls w repo_root (fi_path (p_file parsed))) (p_imports parsed))
       @ concat (map (call_calls tab) (p_function_calls parsed))"

record dry_line =
  dl_path :: string
  dl_funcs :: nat
  dl_imports :: nat
  dl_classes :: nat

definition dry_line_of :: "parsed \<Rightarrow> dry_line" where
  \<comment> \<open>the values printed after \<open>[dry-run] Parsed\<close>\<close>
  "dry_line_of parsed =
     \<lparr>dl_path = fi_path (p_file parsed), dl_funcs = length (p_functions parsed),
      dl_imports = length (p_imports parsed), dl_classes = length (p_classes parsed)\<rparr>"

definition run_ingestion ::
  "world \<Rightarrow> string \<Rightarrow> bool \<Rightarrow> exn + ingest_call list \<times> dry_line list" where
  \<comment> \<open>The ingestor calls made and the dry-run lines printed, both in order, when the
      function returns. An exception can only leave the first loop, which calls no method
      of the ingestor and prints no dry-run line: the run then ends with no call made.\<close>
  "run_ingestion w repo_root dry_run =
     (case first_pass w repo_root of
        Inl e \<Rightarrow> Inl e
      | Inr (parsed_all, func_name_to_file) \<Rightarrow>
          if dry_run then Inr ([], map dry_line_of parsed_all)
          else Inr (concat (map (ingest_parsed w repo_root func_name_to_file) parsed_all), []))"

definition calls_made :: "world \<Rightarrow> string \<Rightarrow> bool \<Rightarrow> ingest_call list" where
  \<comment> \<open>the calls the ingestor has received when the run ends, by return or by exception\<close>
  "calls_made w repo_root dry_run =
     (case run_ingestion w repo_root dry_run of
        Inl e \<Rightarrow> []
      | Inr (calls, printed) \<Rightarrow> calls)"

definition store_after :: "world \<Rightarrow> string \<Rightarrow> bool \<Rightarrow> graph \<Rightarrow> graph" where
  \<comment> \<open>the store when the run ends, started on the store \<open>g\<close>\<close>
  "store_after w repo_root dry_run g = perform_all (calls_made w repo_root dry_run) g"

definition empty_graph :: graph where
  "empty_graph = \<lparr>g_nodes = [], g_edges = [], g_file_name = Map.empty\<rparr>"

section \<open>Notions used in the statements\<close>

text \<open>
  Predicates and projections the statements are written with: the nodes and relationships
  one ingestor call merges, whether the entries of a record all carry one file key, the
  \<open>CALLS\<close> relationships of a store, tests for the kind of an ingestor call, the
  extractors' relative path, and decorators that name an HTTP method.
\<close>

fun call_nodes :: "ingest_call \<Rightarrow> node set" where
  "call_nodes (Ingest_file fi) = {File_node (fi_path fi)}"
| "call_nodes (Ingest_class ci) = {Class_node (cl_name ci) (cl_file ci), File_node (cl_file ci)}"
| "call_nodes (Ingest_function fu) =
     {Function_node (fn_name fu) (fn_file fu), File_node (fn_file fu)}"
| "call_nodes (Ingest_import a b) = (if b = [] then {} else {File_node a, File_node b})"
| "call_nodes (Ingest_function_call a af c cf) =
     {Function_node a af, Function_node c (or_empty cf)}"
| "call_nodes (Ingest_function_used_in c cf u) = {Function_node c (or_empty cf), File_node u}"
| "call_nodes (Ingest_endpoint ep) =
     {Endpoint_node (ep_name ep) (ep_file ep) (ep_decorator ep),
      Function_node (ep_name ep) (ep_file ep)}"
| "call_nodes (Ingest_class_extends c cf p pf) = {Class_node c cf, Class_node p (or_empty pf)}"

fun call_edges :: "ingest_call \<Rightarrow> (node \<times> rel_type \<times> node) set" where
  "call_edges (Ingest_file fi) = {}"
| "call_edges (Ingest_class ci) =
     {(Class_node (cl_name ci) (cl_file ci), DEFINED_IN, File_node (cl_file ci))}"
| "call_edges (Ingest_function fu) =
     {(Function_node (fn_name fu) (fn_file fu), DEFINED_IN, File_node (fn_file fu))}"
| "call_edges (Ingest_import a b) =
     (if b = [] then {} else {(File_node a, IMPORTS, File_node b)})"
| "call_edges (Ingest_function_call a af c cf) =
     {(Function_node a af, CALLS, Function_node c (or_empty cf))}"
| "call_edges (Ingest_function_used_in c cf u) =
     {(Function_node c (or_empty cf), USED_IN, File_node u)}"
| "call_edges (Ingest_endpoint ep) =
     {(Endpoint_node (ep_name ep) (ep_file ep) (ep_decorator ep), HANDLED_BY,
       Function_node (ep_name ep) (ep_file ep))}"
| "call_edges (Ingest_class_extends c cf p pf) =
     {(Class_node c cf, EXTENDS, Class_node p (or_empty pf))}"

definition keyed_by :: "string \<Rightarrow> parsed \<Rightarrow> bool" where
  "keyed_by p r \<longleftrightarrow>
     (\<forall>f \<in> set (p_functions r). fn_file f = p) \<and>
     (\<forall>c \<in> set (p_classes r). cl_file c = p) \<and>
     (\<forall>fc \<in> set (p_function_calls r). fc_caller_file fc = p) \<and>
     (\<forall>e \<in> set (p_endpoints r). ep_file e = p)"

definition calls_edges :: "graph \<Rightarrow> (node \<times> rel_type \<times> node) list" where
  "calls_edges g = filter (\<lambda>e. fst (snd e) = CALLS) (g_edges g)"

definition is_function_call :: "ingest_call \<Rightarrow> bool" where
  "is_function_call c = (case c of Ingest_function_call a af cd cf \<Rightarrow> True | _ \<Rightarrow> False)"

abbreviation repo_rel :: "world \<Rightarrow> string \<Rightarrow> string" where
  \<comment> \<open>the extractors' \<open>rel_path\<close>: the file's path relative to the global \<open>REPO_ROOT\<close>\<close>
  "repo_rel w filepath \<equiv> rel_to w filepath (REPO_ROOT w)"

definition is_route :: "string \<Rightarrow> py_ast \<Rightarrow> bool" where
  \<comment> \<open>a call-style decorator whose attribute name, lower-cased, is the method \<open>kind\<close>\<close>
  "is_route kind dec =
     (case dec of
        Call (Attribute v attr) rest \<Rightarrow> lower attr = kind \<and> kind \<in> set HTTP_METHODS
      | _ \<Rightarrow> False)"


definition is_ingest_import :: "ingest_call \<Rightarrow> bool" where
  "is_ingest_import c = (case c of Ingest_import a b \<Rightarrow> True | _ \<Rightarrow> False)"

definition path_parts :: "world \<Rightarrow> string \<Rightarrow> string list" where
  \<comment> \<open>the components of \<open>os.path.abspath(p)\<close>: the place in the file system that \<open>p\<close>
      names, whatever \<open>.\<close>, \<open>..\<close> and repeated slashes \<open>p\<close> is written with\<close>
  "path_parts w p = filter (\<lambda>x. x \<noteq> []) (split_sep (abspath (getcwd w) p))"


definition is_file_node :: "node \<Rightarrow> bool" where
  "is_file_node n = (case n of File_node x \<Rightarrow> True | _ \<Rightarrow> False)"

section \<open>Example inputs\<close>

text \<open>
  Small source trees, each with what the environment returns on it: the walk, the file
  contents, and the trees or matches the parsers and \<open>re.finditer\<close> give for those
  contents. The current directory is \<open>/work\<close> and \<open>repo_root\<close> and \<open>REPO_ROOT\<close> are
  \<open>repo\<close> throughout.
\<close>

definition NL :: string where
  "NL = [CHR 0x0A]"

definition a_src :: string where
  "a_src = ''def helper(): pass''"

definition b_src :: string where
  "b_src = ''from a import helper'' @ NL @ ''def main(): helper()''"

definition a_tree :: py_ast where
  \<comment> \<open>\<open>Module(body=[FunctionDef(name='helper', args=arguments(), body=[Pass()])])\<close>\<close>
  "a_tree = Other [FunctionDef ''helper'' (Other []) [Other []] [] []]"

definition b_tree :: py_ast where
  \<comment> \<open>\<open>Module(body=[ImportFrom(module='a', names=[alias(name='helper')]),
      FunctionDef(name='main', args=arguments(), body=[Expr(Call(func=Name('helper')))])])\<close>\<close>
  "b_tree =
     Other [ImportFrom (Some ''a'') [''helper''],
            FunctionDef ''main'' (Other []) [Other [Call (Name ''helper'') []]] [] []]"

definition py_world :: world where
  "py_world =
     \<lparr>REPO_ROOT = ''repo'',
      LANGUAGE_PARSERS = (\<lambda>lang_key. None),
      getcwd = ''/work'',
      os_walk = (\<lambda>top. if top = ''repo'' then [(''repo'', [''a.py'', ''b.py'', ''README.md''])]
                        else []),
      open_read = (\<lambda>mode p. if p = ''repo/a.py'' then Some a_src
                              else if p = ''repo/b.py'' then Some b_src
                              else if p = ''repo/README.md'' then Some ''notes''
                              else None),
      isfile = (\<lambda>p. p \<in> set [''repo/a.py'', ''repo/b.py'', ''repo/README.md'']),
      ast_parse = (\<lambda>src. if src = a_src then Some a_tree
                          else if src = b_src then Some b_tree
                          else None),
      ast_dump = (\<lambda>node. Inr []),
      re_finditer = (\<lambda>pat src. []),
      recursion_limit = 990\<rparr>"

definition app_src :: string where
  \<open>app_src = ''import u from "./util"; class Shop {} function open() { if (u.load()) { greet() } }''\<close>

definition util_src :: string where
  "util_src = ''export function greet() {}''"

definition js_finditer :: "pattern \<Rightarrow> string \<Rightarrow> string list" where
  \<comment> \<open>what the six expressions match in \<open>app_src\<close> and \<open>util_src\<close>\<close>
  "js_finditer pat src =
     (if src = app_src then
        (case pat of
           Re_import \<Rightarrow> [''./util'']
         | Re_function \<Rightarrow> [''open'']
         | Re_class \<Rightarrow> [''Shop'']
         | Re_call \<Rightarrow> [''open'', ''if'', ''load'', ''greet'']
         | _ \<Rightarrow> [])
      else if src = util_src then
        (case pat of
           Re_function \<Rightarrow> [''greet'']
         | Re_call \<Rightarrow> [''greet'']
         | _ \<Rightarrow> [])
      else [])"

definition js_world :: world where
  "js_world =
     \<lparr>REPO_ROOT = ''repo'',
      LANGUAGE_PARSERS = (\<lambda>lang_key. None),
      getcwd = ''/work'',
      os_walk = (\<lambda>top. if top = ''repo'' then [(''repo'', [''app.js'', ''util.js''])] else []),
      open_read = (\<lambda>mode p. if p = ''repo/app.js'' then Some app_src
                              else if p = ''repo/util.js'' then Some util_src
                              else None),
      isfile = (\<lambda>p. p \<in> set [''repo/app.js'', ''repo/util.js'']),
      ast_parse = (\<lambda>src. None),
      ast_dump = (\<lambda>node. Inr []),
      re_finditer = js_finditer,
      recursion_limit = 990\<rparr>"

definition f_src :: string where
  "f_src = ''function f() { g(1) }''"

definition f_tree :: ts_node where
  "f_tree =
     TSNode ''program'' f_src None
       [TSNode ''function_declaration'' f_src (Some (TSNode ''identifier'' ''f'' None []))
          [TSNode ''identifier'' ''f'' None [],
           TSNode ''formal_parameters'' ''()'' None [],
           TSNode ''statement_block'' ''{ g(1) }'' None
             [TSNode ''expression_statement'' ''g(1)'' None
                [TSNode ''call_expression'' ''g(1)'' None
                   [TSNode ''identifier'' ''g'' None [],
                    TSNode ''arguments'' ''(1)'' None [TSNode ''number'' ''1'' None []]]]]]]"

definition ts_world :: world where
  "ts_world =
     \<lparr>REPO_ROOT = ''repo'',
      LANGUAGE_PARSERS = (\<lambda>lang_key. if lang_key = ''javascript''
                            then Some (\<lambda>bytes. if bytes = f_src then Some f_tree else None)
                            else None),
      getcwd = ''/work'',
      os_walk = (\<lambda>top. if top = ''repo'' then [(''repo'', [''f.js''])] else []),
      open_read = (\<lambda>mode p. if p = ''repo/f.js'' then Some f_src else None),
      isfile = (\<lambda>p. p = ''repo/f.js''),
      ast_parse = (\<lambda>src. None),
      ast_dump = (\<lambda>node. Inr []),
      re_finditer = (\<lambda>pat src. []),
      recursion_limit = 990\<rparr>"

definition app_record :: parsed where
  "app_record =
     \<lparr>p_file = \<lparr>fi_path = ''app.js'', fi_name = ''app.js''\<rparr>,
      p_functions = [\<lparr>fn_name = ''open'', fn_file = ''app.js''\<rparr>],
      p_classes = [\<lparr>cl_name = ''Shop'', cl_bases = [], cl_file = ''app.js''\<rparr>],
      p_imports = [''./util''],
      p_function_calls =
        [\<lparr>fc_caller = None, fc_caller_file = ''app.js'', fc_called = ''open'',
          fc_called_file = None\<rparr>,
         \<lparr>fc_caller = None, fc_caller_file = ''app.js'', fc_called = ''load'',
          fc_called_file = None\<rparr>,
         \<lparr>fc_caller = None, fc_caller_file = ''app.js'', fc_called = ''greet'',
          fc_called_file = None\<rparr>],
      p_endpoints = []\<rparr>"

definition f_record :: parsed where
  "f_record =
     \<lparr>p_file = \<lparr>fi_path = ''f.js'', fi_name = ''f.js''\<rparr>,
      p_functions = [\<lparr>fn_name = ''f'', fn_file = ''f.js''\<rparr>],
      p_classes = [],
      p_imports = [],
      p_function_calls =
        [\<lparr>fc_caller = Some ''f'', fc_caller_file = ''f.js'', fc_called = ''g'',
          fc_called_file = None\<rparr>],
      p_endpoints = []\<rparr>"

definition b_record :: parsed where
  "b_record =
     \<lparr>p_file = \<lparr>fi_path = ''b.py'', fi_name = ''b.py''\<rparr>,
      p_functions = [\<lparr>fn_name = ''main'', fn_file = ''b.py''\<rparr>],
      p_classes = [],
      p_imports = [''a.helper''],
      p_function_calls =
        [\<lparr>fc_caller = Some ''main'', fc_caller_file = ''b.py'', fc_called = ''helper'',
          fc_called_file = None\<rparr>],
      p_endpoints = []\<rparr>"

definition run_src :: string where
  "run_src = ''def run(): pass''"

definition z_src :: string where
  "z_src = ''from x import run'' @ NL @ ''def go(): run()''"

definition run_tree :: py_ast where
  \<comment> \<open>\<open>Module(body=[FunctionDef(name='run', args=arguments(), body=[Pass()])])\<close>\<close>
  "run_tree = Other [FunctionDef ''run'' (Other []) [Other []] [] []]"

definition z_tree :: py_ast where
  "z_tree =
     Other [ImportFrom (Some ''x'') [''run''],
            FunctionDef ''go'' (Other []) [Other [Call (Name ''run'') []]] [] []]"

definition dup_world :: world where
  \<comment> \<open>\<open>x.py\<close> and \<open>y.py\<close> both define \<open>run\<close>; \<open>z.py\<close> calls it\<close>
  "dup_world =
     \<lparr>REPO_ROOT = ''repo'',
      LANGUAGE_PARSERS = (\<lambda>lang_key. None),
      getcwd = ''/work'',
      os_walk = (\<lambda>top. if top = ''repo'' then [(''repo'', [''x.py'', ''y.py'', ''z.py''])] else []),
      open_read = (\<lambda>mode p. if p = ''repo/x.py'' then Some run_src
                              else if p = ''repo/y.py'' then Some run_src
                              else if p = ''repo/z.py'' then Some z_src
                              else None),
      isfile = (\<lambda>p. p \<in> set [''repo/x.py'', ''repo/y.py'', ''repo/z.py'']),
      ast_parse = (\<lambda>src. if src = run_src then Some run_tree
                          else if src = z_src then Some z_tree
                          else None),
      ast_dump = (\<lambda>node. Inr []),
      re_finditer = (\<lambda>pat src. []),
      recursion_limit = 990\<rparr>"

definition go_call :: call_site where
  "go_call = \<lparr>fc_caller = Some ''go'', fc_caller_file = ''z.py'', fc_called = ''run'',
              fc_called_file = None\<rparr>"

definition main_call :: call_site where
  "main_call = \<lparr>fc_caller = Some ''main'', fc_caller_file = ''b.py'', fc_called = ''helper'',
                fc_called_file = None\<rparr>"

definition load_call :: call_site where
  "load_call = \<lparr>fc_caller = None, fc_caller_file = ''app.js'', fc_called = ''load'',
                fc_called_file = None\<rparr>"

definition api_src :: string where
  \<open>api_src = ''@router.get("/items")'' @ NL @ ''@router.get("/items/")'' @ NL
       @ ''def list_items(): return fetch()'' @ NL @ ''def plain(): pass''\<close>

definition list_items_def :: py_ast where
  \<comment> \<open>\<open>FunctionDef(name='list_items', args=arguments(),
        body=[Return(Call(func=Name('fetch')))],
        decorator_list=[Call(func=Attribute(Name('router'), 'get'), args=[Constant('/items')]),
                        Call(func=Attribute(Name('router'), 'get'), args=[Constant('/items/')])])\<close>\<close>
  "list_items_def =
     FunctionDef ''list_items'' (Other []) [Other [Call (Name ''fetch'') []]]
       [Call (Attribute (Name ''router'') ''get'') [Other []],
        Call (Attribute (Name ''router'') ''get'') [Other []]] []"

definition plain_def :: py_ast where
  "plain_def = FunctionDef ''plain'' (Other []) [Other []] [] []"

definition api_tree :: py_ast where
  "api_tree = Other [list_items_def, plain_def]"

definition api_world :: world where
  "api_world =
     \<lparr>REPO_ROOT = ''repo'',
      LANGUAGE_PARSERS = (\<lambda>lang_key. None),
      getcwd = ''/work'',
      os_walk = (\<lambda>top. if top = ''repo'' then [(''repo'', [''api.py''])] else []),
      open_read = (\<lambda>mode p. if p = ''repo/api.py'' then Some api_src else None),
      isfile = (\<lambda>p. p = ''repo/api.py''),
      ast_parse = (\<lambda>src. if src = api_src then Some api_tree else None),
      ast_dump = (\<lambda>node. Inr []),
      re_finditer = (\<lambda>pat src. []),
      recursion_limit = 990\<rparr>"

definition api_record :: parsed where
  "api_record =
     \<lparr>p_file = \<lparr>fi_path = ''api.py'', fi_name = ''api.py''\<rparr>,
      p_functions = [\<lparr>fn_name = ''list_items'', fn_file = ''api.py''\<rparr>,
                     \<lparr>fn_name = ''plain'', fn_file = ''api.py''\<rparr>],
      p_classes = [],
      p_imports = [],
      p_function_calls =
        [\<lparr>fc_caller = Some ''list_items'', fc_caller_file = ''api.py'',
          fc_called = ''router.get'', fc_called_file = None\<rparr>,
         \<lparr>fc_caller = Some ''list_items'', fc_caller_file = ''api.py'',
          fc_called = ''router.get'', fc_called_file = None\<rparr>,
         \<lparr>fc_caller = Some ''list_items'', fc_caller_file = ''api.py'',
          fc_called = ''fetch'', fc_called_file = None\<rparr>],
      p_endpoints =
        [\<lparr>ep_name = ''list_items'', ep_file = ''api.py'', ep_decorator = ''get''\<rparr>,
         \<lparr>ep_name = ''list_items'', ep_file = ''api.py'', ep_decorator = ''get''\<rparr>]\<rparr>"




definition outside_world :: world where
  \<comment> \<open>\<open>js_world\<close> on a machine that also has a file \<open>/util.js\<close>\<close>
  "outside_world = js_world\<lparr>isfile := (\<lambda>p. p \<in> set [''repo/app.js'', ''repo/util.js'', ''//util.js''])\<rparr>"

definition c_src :: string where
  "c_src = ''import a''"

definition c_tree :: py_ast where
  \<comment> \<open>\<open>Module(body=[Import(names=[alias(name='a')])])\<close>\<close>
  "c_tree = Other [Import [''a'']]"

definition proj_world :: world where
  \<comment> \<open>the tree \<open>proj\<close>, given with \<open>--repo proj\<close> while \<open>REPO_ROOT\<close> keeps its default\<close>
  "proj_world =
     \<lparr>REPO_ROOT = ''repo'',
      LANGUAGE_PARSERS = (\<lambda>lang_key. None),
      getcwd = ''/work'',
      os_walk = (\<lambda>top. if top = ''proj'' then [(''proj'', [''a.py'', ''c.py''])] else []),
      open_read = (\<lambda>mode p. if p = ''proj/a.py'' then Some a_src
                              else if p = ''proj/c.py'' then Some c_src
                              else None),
      isfile = (\<lambda>p. p \<in> set [''proj/a.py'', ''proj/c.py'']),
      ast_parse = (\<lambda>src. if src = a_src then Some a_tree
                          else if src = c_src then Some c_tree
                          else None),
      ast_dump = (\<lambda>node. Inr []),
      re_finditer = (\<lambda>pat src. []),
      recursion_limit = 990\<rparr>"

fun call_chain :: "nat \<Rightarrow> py_ast" where
  \<comment> \<open>the expression \<open>f()()...()\<close> with \<open>n\<close> calls\<close>
  "call_chain 0 = Name ''f''"
| "call_chain (Suc n) = Call (call_chain n) []"

definition deep_src :: string where
  "deep_src = ''class A(f'' @ concat (replicate 1000 ''()'') @ ''): pass''"

definition deep_tree :: py_ast where
  \<comment> \<open>\<open>Module(body=[ClassDef(name='A', bases=[Call(func=Call(...))], body=[Pass()])])\<close>\<close>
  "deep_tree = Other [ClassDef ''A'' [call_chain 1000] [Other []]]"

definition deep_world :: world where
  \<comment> \<open>\<open>ok.py\<close> parses; \<open>deep.py\<close> parses too, and \<open>ast.dump\<close> of the base of its class, a
      chain of 1000 calls, exceeds the interpreter's recursion limit\<close>
  "deep_world =
     \<lparr>REPO_ROOT = ''repo'',
      LANGUAGE_PARSERS = (\<lambda>lang_key. None),
      getcwd = ''/work'',
      os_walk = (\<lambda>top. if top = ''repo'' then [(''repo'', [''ok.py'', ''deep.py''])] else []),
      open_read = (\<lambda>mode p. if p = ''repo/ok.py'' then Some a_src
                              else if p = ''repo/deep.py'' then Some deep_src
                              else None),
      isfile = (\<lambda>p. p \<in> set [''repo/ok.py'', ''repo/deep.py'']),
      ast_parse = (\<lambda>src. if src = deep_src then Some deep_tree
                          else if src = a_src then Some a_tree
                          else None),
      ast_dump = (\<lambda>node. if node = call_chain 1000 then Inl RecursionError else Inr []),
      re_finditer = (\<lambda>pat src. []),
      recursion_limit = 990\<rparr>"

fun nest :: "nat \<Rightarrow> ts_node" where
  \<comment> \<open>the tree of \<open>((...(1)...))\<close> with \<open>n\<close> pairs of parentheses\<close>
  "nest 0 = TSNode ''number'' ''1'' None []"
| "nest (Suc n) =
     TSNode ''parenthesized_expression''
       (replicate (Suc n) (CHR ''('') @ ''1'' @ replicate (Suc n) (CHR '')'')) None
       [TSNode ''('' ''('' None [], nest n, TSNode '')'' '')'' None []]"

definition nested_src :: string where
  "nested_src = replicate 1000 (CHR ''('') @ ''1'' @ replicate 1000 (CHR '')'')"

definition nested_tree :: ts_node where
  "nested_tree =
     TSNode ''program'' nested_src None
       [TSNode ''expression_statement'' nested_src None [nest 1000]]"

definition nested_world :: world where
  \<comment> \<open>\<open>deep.js\<close> holds a number in 1000 pairs of parentheses; the parser for JavaScript is
      loaded\<close>
  "nested_world =
     \<lparr>REPO_ROOT = ''repo'',
      LANGUAGE_PARSERS = (\<lambda>lang_key. if lang_key = ''javascript''
                            then Some (\<lambda>bytes. if bytes = nested_src then Some nested_tree
                                                else None)
                            else None),
      getcwd = ''/work'',
      os_walk = (\<lambda>top. if top = ''repo'' then [(''repo'', [''deep.js''])] else []),
      open_read = (\<lambda>mode p. if p = ''repo/deep.js'' then Some nested_src else None),
      isfile = (\<lambda>p. p = ''repo/deep.js''),
      ast_parse = (\<lambda>src. None),
      ast_dump = (\<lambda>node. Inr []),
      re_finditer = (\<lambda>pat src. []),
      recursion_limit = 990\<rparr>"

definition sub_world :: world where
  \<comment> \<open>the tree \<open>repo/sub\<close>, given with \<open>--repo repo/sub\<close> while \<open>REPO_ROOT\<close> is \<open>repo\<close>;
      \<open>repo/sub/a.py\<close> parses and \<open>ast.parse\<close> raises on \<open>repo/sub/sub/a.py\<close>\<close>
  "sub_world =
     \<lparr>REPO_ROOT = ''repo'',
      LANGUAGE_PARSERS = (\<lambda>lang_key. None),
      getcwd = ''/work'',
      os_walk = (\<lambda>top. if top = ''repo/sub''
                        then [(''repo/sub'', [''a.py'']), (''repo/sub/sub'', [''a.py''])]
                        else []),
      open_read = (\<lambda>mode p. if p = ''repo/sub/a.py'' then Some a_src
                              else if p = ''repo/sub/sub/a.py'' then Some ''def (:''
                              else None),
      isfile = (\<lambda>p. p \<in> set [''repo/sub/a.py'', ''repo/sub/sub/a.py'']),
      ast_parse = (\<lambda>src. if src = a_src then Some a_tree else None),
      ast_dump = (\<lambda>node. Inr []),
      re_finditer = (\<lambda>pat src. []),
      recursion_limit = 990\<rparr>"

section \<open>Paths\<close>

lemma path_join_nonempty: "a \<noteq> [] \<Longrightarrow> path_join a b \<noteq> []"
  by (auto simp: path_join_def startswith_def)

lemma path_join_hd:
  "a \<noteq> [] \<Longrightarrow> \<not> startswith b ''/'' \<Longrightarrow> hd (path_join a b) = hd a"
  by (auto simp: path_join_def)

lemma foldl_path_join_nonempty: "a \<noteq> [] \<Longrightarrow> foldl path_join a xs \<noteq> []"
  by (induction xs arbitrary: a) (auto simp: path_join_nonempty)

lemma split_sep_nonempty: "split_sep s \<noteq> []"
  by (induction s) (auto split: list.splits)

lemma split_sep_no_slash: "x \<in> set (split_sep s) \<Longrightarrow> CHR ''/'' \<notin> set x"
proof (induction s arbitrary: x)
  case Nil
  then show ?case by simp
next
  case (Cons c cs)
  then show ?case
    by (cases "split_sep cs") (auto split: if_splits simp: split_sep_nonempty)
qed

lemma not_startswith_slash: "x \<noteq> [] \<Longrightarrow> CHR ''/'' \<notin> set x \<Longrightarrow> \<not> startswith x ''/''"
  by (cases x) (auto simp: startswith_def)

lemma foldl_path_join_hd:
  "a \<noteq> [] \<Longrightarrow> \<forall>x \<in> set xs. \<not> startswith x ''/'' \<Longrightarrow> hd (foldl path_join a xs) = hd a"
proof (induction xs arbitrary: a)
  case Nil
  then show ?case by simp
next
  case (Cons x xs)
  have "hd (foldl path_join (path_join a x) xs) = hd (path_join a x)"
    using Cons.prems by (intro Cons.IH) (auto simp: path_join_nonempty)
  then show ?case using Cons.prems by (simp add: path_join_hd)
qed

lemma relpath_cases:
  "relpath cwd p s = ''.'' \<or>
   (\<exists>a xs. relpath cwd p s = foldl path_join a xs \<and> a \<noteq> [] \<and> CHR ''/'' \<notin> set a
      \<and> (\<forall>x \<in> set xs. x \<noteq> [] \<and> CHR ''/'' \<notin> set x))"
proof -
  define start_list where "start_list = filter (\<lambda>x. x \<noteq> []) (split_sep (abspath cwd s))"
  define path_list where "path_list = filter (\<lambda>x. x \<noteq> []) (split_sep (abspath cwd p))"
  define i where "i = length (commonprefix start_list path_list)"
  define rel_list where "rel_list = replicate (length start_list - i) ''..'' @ drop i path_list"
  have r: "relpath cwd p s = (if rel_list = [] then ''.'' else foldl path_join (hd rel_list) (tl rel_list))"
    by (simp add: relpath_def Let_def start_list_def path_list_def i_def rel_list_def)
  have pl: "\<forall>x \<in> set path_list. x \<noteq> [] \<and> CHR ''/'' \<notin> set x"
    by (auto simp: path_list_def split_sep_no_slash)
  have "\<forall>x \<in> set (drop i path_list). x \<noteq> [] \<and> CHR ''/'' \<notin> set x"
    using pl by (meson in_set_dropD)
  then have all: "\<forall>x \<in> set rel_list. x \<noteq> [] \<and> CHR ''/'' \<notin> set x"
    by (auto simp: rel_list_def)
  show ?thesis
  proof (cases "rel_list = []")
    case True
    then show ?thesis by (simp add: r)
  next
    case False
    then obtain a xs where ax: "rel_list = a # xs" by (cases rel_list) auto
    with all r show ?thesis by auto
  qed
qed

lemma relpath_nonempty: "relpath cwd p s \<noteq> []"
  using relpath_cases [of cwd p s] by (auto simp: foldl_path_join_nonempty)

lemma relpath_relative: "\<not> startswith (relpath cwd p s) ''/''"
proof -
  from relpath_cases [of cwd p s] show ?thesis
  proof
    assume "relpath cwd p s = ''.''"
    then show ?thesis by (simp add: startswith_def)
  next
    assume "\<exists>a xs. relpath cwd p s = foldl path_join a xs \<and> a \<noteq> [] \<and> CHR ''/'' \<notin> set a
      \<and> (\<forall>x \<in> set xs. x \<noteq> [] \<and> CHR ''/'' \<notin> set x)"
    then obtain a xs where r: "relpath cwd p s = foldl path_join a xs" and a: "a \<noteq> []" "CHR ''/'' \<notin> set a"
      and xs: "\<forall>x \<in> set xs. x \<noteq> [] \<and> CHR ''/'' \<notin> set x" by blast
    have "hd (foldl path_join a xs) = hd a"
      using a xs by (intro foldl_path_join_hd) (auto simp: not_startswith_slash)
    moreover have "hd a \<noteq> CHR ''/''" using a by (cases a) auto
    moreover have "foldl path_join a xs \<noteq> []" using a by (simp add: foldl_path_join_nonempty)
    ultimately show ?thesis
      unfolding r by (cases "foldl path_join a xs") (auto simp: startswith_def)
  qed
qed

lemma rel_to_nonempty: "rel_to w p s \<noteq> []"
  by (simp add: rel_to_def relpath_nonempty)

lemma rel_to_relative: "\<not> startswith (rel_to w p s) ''/''"
  by (simp add: rel_to_def relpath_relative)

section \<open>Loops that an exception can leave\<close>

lemma map_exn_values:
  "map_exn f xs = Inr vs \<Longrightarrow> list_all2 (\<lambda>x v. f x = Inr v) xs vs"
proof (induction xs arbitrary: vs)
  case Nil
  then show ?case by simp
next
  case (Cons x xs)
  then show ?case by (auto split: sum.splits)
qed

lemma list_all2_right: "list_all2 P xs ys \<Longrightarrow> y \<in> set ys \<Longrightarrow> \<exists>x \<in> set xs. P x y"
  by (induction rule: list_all2_induct) auto

lemma list_all2_left: "list_all2 P xs ys \<Longrightarrow> x \<in> set xs \<Longrightarrow> \<exists>y \<in> set ys. P x y"
  by (induction rule: list_all2_induct) auto

lemma map_exn_origin: "map_exn f xs = Inr vs \<Longrightarrow> v \<in> set vs \<Longrightarrow> \<exists>x \<in> set xs. f x = Inr v"
  by (drule map_exn_values) (rule list_all2_right)

lemma map_exn_value: "map_exn f xs = Inr vs \<Longrightarrow> x \<in> set xs \<Longrightarrow> \<exists>v \<in> set vs. f x = Inr v"
  by (drule map_exn_values) (rule list_all2_left)

lemma map_exn_total: "(\<And>x. x \<in> set xs \<Longrightarrow> f x = Inr (g x)) \<Longrightarrow> map_exn f xs = Inr (map g xs)"
  by (induction xs) auto

section \<open>Shape of the records\<close>

lemma decorator_endpoints_file: "e \<in> set (decorator_endpoints n p d) \<Longrightarrow> ep_file e = p \<and> ep_name e = n"
  by (auto simp: decorator_endpoints_def Let_def split: py_ast.splits if_splits)

lemma sub_calls_file: "fc \<in> set (sub_calls n p s) \<Longrightarrow> fc_caller_file fc = p \<and> fc_caller fc = Some n"
  by (auto simp: sub_calls_def split: py_ast.splits option.splits if_splits)

lemma ts_calls_cases:
  "ts_calls p item = [] \<or>
   (\<exists>c d. c \<noteq> [] \<and> d \<noteq> [] \<and>
      ts_calls p item = [\<lparr>fc_caller = Some d, fc_caller_file = p,
                          fc_called = c, fc_called_file = None\<rparr>])"
proof (cases "first_identifier (fst item)")
  case None
  then show ?thesis by (simp add: ts_calls_def)
next
  case (Some c)
  show ?thesis
  proof (cases "enclosing_caller (fst item # snd item)")
    case None
    with Some show ?thesis by (simp add: ts_calls_def)
  next
    case (Some d)
    with \<open>first_identifier (fst item) = Some c\<close>
    have "ts_calls p item =
            (if c \<noteq> [] then (if d \<noteq> []
               then [\<lparr>fc_caller = Some d, fc_caller_file = p,
                       fc_called = c, fc_called_file = None\<rparr>] else []) else [])"
      by (simp add: ts_calls_def)
    then show ?thesis by auto
  qed
qed

lemma ts_calls_file: "fc \<in> set (ts_calls p item) \<Longrightarrow> fc_caller_file fc = p"
  using ts_calls_cases [of p item] by auto

lemma ts_functions_file: "f \<in> set (ts_functions p n) \<Longrightarrow> fn_file f = p"
  by (auto simp: ts_functions_def Let_def split: option.splits if_splits)

lemma node_classes_file: "node_classes w p n = Inr cs \<Longrightarrow> c \<in> set cs \<Longrightarrow> cl_file c = p"
  by (auto simp: node_classes_def split: py_ast.splits sum.splits)

lemma python_result:
  assumes "parse_python_file w fp = Inr (Some r)"
  obtains src tree classes where
    "open_read w Utf8_strict fp = Some src" "ast_parse w src = Some tree"
    "map_exn (node_classes w (rel_to w fp (REPO_ROOT w))) (ast_walk tree) = Inr classes"
    "r = \<lparr>p_file = file_info_of w fp (REPO_ROOT w),
          p_functions = concat (map (node_functions (rel_to w fp (REPO_ROOT w))) (ast_walk tree)),
          p_classes = concat classes,
          p_imports = concat (map node_imports (ast_walk tree)),
          p_function_calls = concat (map (func_calls (rel_to w fp (REPO_ROOT w)))
                               (filter is_FunctionDef (ast_walk tree))),
          p_endpoints = concat (map (node_endpoints (rel_to w fp (REPO_ROOT w))) (ast_walk tree))\<rparr>"
  using assms
  by (auto simp: parse_python_file_def Let_def split: option.splits sum.splits)

lemma python_keyed:
  assumes "parse_python_file w fp = Inr (Some r)"
  shows "fi_path (p_file r) = rel_to w fp (REPO_ROOT w)" and "keyed_by (rel_to w fp (REPO_ROOT w)) r"
proof -
  from assms obtain src tree classes where
    classes: "map_exn (node_classes w (rel_to w fp (REPO_ROOT w))) (ast_walk tree) = Inr classes"
    and r: "r = \<lparr>p_file = file_info_of w fp (REPO_ROOT w),
             p_functions = concat (map (node_functions (rel_to w fp (REPO_ROOT w))) (ast_walk tree)),
             p_classes = concat classes,
             p_imports = concat (map node_imports (ast_walk tree)),
             p_function_calls = concat (map (func_calls (rel_to w fp (REPO_ROOT w)))
                                  (filter is_FunctionDef (ast_walk tree))),
             p_endpoints = concat (map (node_endpoints (rel_to w fp (REPO_ROOT w))) (ast_walk tree))\<rparr>"
    by (rule python_result)
  show "fi_path (p_file r) = rel_to w fp (REPO_ROOT w)"
    by (simp add: r file_info_of_def)
  have 1: "\<forall>f \<in> set (p_functions r). fn_file f = rel_to w fp (REPO_ROOT w)"
    by (auto simp: r node_functions_def split: py_ast.splits)
  have 2: "\<forall>c \<in> set (p_classes r). cl_file c = rel_to w fp (REPO_ROOT w)"
  proof
    fix c assume "c \<in> set (p_classes r)"
    then obtain cs where cs: "cs \<in> set classes" "c \<in> set cs" by (auto simp: r)
    from map_exn_origin [OF classes cs(1)] obtain n
      where "node_classes w (rel_to w fp (REPO_ROOT w)) n = Inr cs" by blast
    then show "cl_file c = rel_to w fp (REPO_ROOT w)" using cs(2) by (rule node_classes_file)
  qed
  have 3: "\<forall>fc \<in> set (p_function_calls r). fc_caller_file fc = rel_to w fp (REPO_ROOT w)"
    by (auto simp: r func_calls_def dest: sub_calls_file)
  have 4: "\<forall>e \<in> set (p_endpoints r). ep_file e = rel_to w fp (REPO_ROOT w)"
    by (auto simp: r node_endpoints_def split: py_ast.splits dest: decorator_endpoints_file)
  show "keyed_by (rel_to w fp (REPO_ROOT w)) r"
    unfolding keyed_by_def using 1 2 3 4 by blast
qed

lemma ts_keyed:
  assumes "parse_with_treesitter w fp lk = Inr (Some r)"
  shows "fi_path (p_file r) = rel_to w fp (REPO_ROOT w)" and "keyed_by (rel_to w fp (REPO_ROOT w)) r"
proof -
  from assms obtain items where
    r: "r = \<lparr>p_file = file_info_of w fp (REPO_ROOT w),
             p_functions = concat (map (\<lambda>item. ts_functions (rel_to w fp (REPO_ROOT w)) (fst item))
                                         (on_branch Function_branch items)),
             p_classes = concat (map (\<lambda>item. ts_classes (rel_to w fp (REPO_ROOT w)) (fst item))
                                         (on_branch Class_branch items)),
             p_imports = map (\<lambda>item. strip (ts_text (fst item)))
                                 (on_branch Import_branch items),
             p_function_calls = concat (map (ts_calls (rel_to w fp (REPO_ROOT w)))
                                  (on_branch Call_branch items)),
             p_endpoints = []\<rparr>"
    by (auto simp: parse_with_treesitter_def Let_def split: option.splits sum.splits)
  show "fi_path (p_file r) = rel_to w fp (REPO_ROOT w)"
    by (simp add: r file_info_of_def)
  have 1: "\<forall>f \<in> set (p_functions r). fn_file f = rel_to w fp (REPO_ROOT w)"
    by (auto simp: r dest: ts_functions_file)
  have 2: "\<forall>c \<in> set (p_classes r). cl_file c = rel_to w fp (REPO_ROOT w)"
    by (auto simp: r ts_classes_def Let_def)
  have 3: "\<forall>fc \<in> set (p_function_calls r). fc_caller_file fc = rel_to w fp (REPO_ROOT w)"
    by (auto simp: r dest: ts_calls_file)
  show "keyed_by (rel_to w fp (REPO_ROOT w)) r"
    unfolding keyed_by_def using 1 2 3 by (simp add: r)
qed

lemma js_keyed:
  assumes "parse_js_like_file w fp lk = Some r"
  shows "fi_path (p_file r) = rel_to w fp (REPO_ROOT w)" and "keyed_by (rel_to w fp (REPO_ROOT w)) r"
  using assms
  by (auto simp: parse_js_like_file_def Let_def keyed_by_def file_info_of_def split: option.splits)

lemma any_cases:
  assumes "parse_any_file w fp = Inr (Some r)"
  obtains "parse_python_file w fp = Inr (Some r)"
    | lk where "parse_with_treesitter w fp lk = Inr (Some r)"
    | lk where "parse_js_like_file w fp lk = Some r"
  using assms
  by (auto simp: parse_any_file_def split: option.splits if_splits sum.splits)

lemma any_keyed:
  assumes "parse_any_file w fp = Inr (Some r)"
  shows "fi_path (p_file r) = rel_to w fp (REPO_ROOT w)" and "keyed_by (rel_to w fp (REPO_ROOT w)) r"
proof -
  from assms
  have "fi_path (p_file r) = rel_to w fp (REPO_ROOT w) \<and> keyed_by (rel_to w fp (REPO_ROOT w)) r"
    by (cases rule: any_cases) (auto simp: python_keyed ts_keyed js_keyed)
  then show "fi_path (p_file r) = rel_to w fp (REPO_ROOT w)"
    and "keyed_by (rel_to w fp (REPO_ROOT w)) r" by simp_all
qed

lemma degenerate_keyed: "keyed_by p (degenerate w root full)"
  by (simp add: keyed_by_def degenerate_def)

lemma parse_or_degenerate_cases:
  assumes "parse_or_degenerate w root full = Inr p"
  obtains "parse_any_file w full = Inr None" "p = degenerate w root full"
    | "parse_any_file w full = Inr (Some p)"
  using assms by (auto simp: parse_or_degenerate_def split: sum.splits option.splits)

lemma parse_or_degenerate_keyed:
  assumes "parse_or_degenerate w root full = Inr p"
  shows "keyed_by (fi_path (p_file p)) p \<and> fi_path (p_file p) \<noteq> []"
  using assms
proof (cases rule: parse_or_degenerate_cases)
  case 1
  then show ?thesis
    by (simp add: degenerate_keyed) (simp add: degenerate_def file_info_of_def rel_to_nonempty)
next
  case 2
  then show ?thesis
    using any_keyed [OF 2] by (simp add: rel_to_nonempty)
qed

section \<open>The first pass\<close>

lemma add_functions_append:
  "add_functions tab (xs @ ys) = add_functions (add_functions tab xs) ys"
  by (simp add: add_functions_def)

lemma visit_file_step:
  "visit_file w r (ps, tab) (d, f) =
     (if recognised f
      then (case parse_or_degenerate w r (path_join d f) of
              Inl e \<Rightarrow> Inl e
            | Inr p \<Rightarrow> Inr (ps @ [p], add_functions tab (p_functions p)))
      else Inr (ps, tab))"
  by (simp add: visit_file_def)

lemma fold_visit_file:
  assumes "fold_exn (visit_file w r) (ps, tab) items = Inr (ps', tab')"
  shows "\<exists>qs. ps' = ps @ qs
           \<and> list_all2 (\<lambda>(d, f) p. parse_or_degenerate w r (path_join d f) = Inr p)
                 (filter (\<lambda>(d, f). recognised f) items) qs
           \<and> tab' = add_functions tab (concat (map p_functions qs))"
  using assms
proof (induction items arbitrary: ps tab)
  case Nil
  then show ?case by (simp add: add_functions_def)
next
  case (Cons it items)
  obtain d f where it: "it = (d, f)" by (cases it)
  show ?case
  proof (cases "recognised f")
    case False
    with Cons.prems have "fold_exn (visit_file w r) (ps, tab) items = Inr (ps', tab')"
      by (simp add: it visit_file_step)
    from Cons.IH [OF this] show ?thesis using False by (simp add: it)
  next
    case True
    with Cons.prems obtain p where p: "parse_or_degenerate w r (path_join d f) = Inr p"
      and rest: "fold_exn (visit_file w r) (ps @ [p], add_functions tab (p_functions p)) items
                   = Inr (ps', tab')"
      by (auto simp: it visit_file_step split: sum.splits)
    from Cons.IH [OF rest] obtain qs where qs: "ps' = (ps @ [p]) @ qs"
      "list_all2 (\<lambda>(d, f) p. parse_or_degenerate w r (path_join d f) = Inr p)
         (filter (\<lambda>(d, f). recognised f) items) qs"
      "tab' = add_functions (add_functions tab (p_functions p)) (concat (map p_functions qs))"
      by blast
    have "ps' = ps @ (p # qs)" using qs(1) by simp
    moreover have "list_all2 (\<lambda>(d, f) p. parse_or_degenerate w r (path_join d f) = Inr p)
         (filter (\<lambda>(d, f). recognised f) (it # items)) (p # qs)"
      using True p qs(2) by (simp add: it)
    moreover have "tab' = add_functions tab (concat (map p_functions (p # qs)))"
      using qs(3) by (simp add: add_functions_append)
    ultimately show ?thesis by blast
  qed
qed

lemma parsed_all_eq:
  assumes "first_pass w r = Inr (ps, tab)"
  shows "list_all2 (\<lambda>(d, f) p. parse_or_degenerate w r (path_join d f) = Inr p)
           (filter (\<lambda>(d, f). recognised f) (scanned_files w r)) ps"
  using fold_visit_file [OF assms [unfolded first_pass_def]] by simp

lemma symtab_eq:
  assumes "first_pass w r = Inr (ps, tab)"
  shows "tab = add_functions Map.empty (concat (map p_functions ps))"
  using fold_visit_file [OF assms [unfolded first_pass_def]] by simp

lemma record_origin:
  assumes "first_pass w r = Inr (ps, tab)" and "p \<in> set ps"
  obtains d f where "(d, f) \<in> set (scanned_files w r)" "recognised f"
    "parse_or_degenerate w r (path_join d f) = Inr p"
  using list_all2_right [OF parsed_all_eq [OF assms(1)] assms(2)] by auto

lemma parsed_all_keyed:
  assumes "first_pass w r = Inr (ps, tab)" and "p \<in> set ps"
  shows "keyed_by (fi_path (p_file p)) p" and "fi_path (p_file p) \<noteq> []"
proof -
  from assms obtain d f where "parse_or_degenerate w r (path_join d f) = Inr p"
    by (rule record_origin)
  from parse_or_degenerate_keyed [OF this]
  show "keyed_by (fi_path (p_file p)) p" and "fi_path (p_file p) \<noteq> []" by simp_all
qed

lemma add_functions_lookup:
  "add_functions tab funs n =
     (case filter (\<lambda>f. fn_name f = n) funs of
        [] \<Rightarrow> tab n
      | f # fs \<Rightarrow> Some (fn_file (last (f # fs))))"
proof (induction funs arbitrary: tab)
  case Nil
  show ?case by (simp add: add_functions_def)
next
  case (Cons a funs)
  have step: "add_functions tab (a # funs) = add_functions (tab(fn_name a \<mapsto> fn_file a)) funs"
    by (simp add: add_functions_def)
  show ?case
    unfolding step Cons.IH by (auto split: list.splits)
qed

lemma symtab_value:
  assumes "first_pass w r = Inr (ps, tab)" and "tab n = Some f"
  shows "\<exists>p \<in> set ps. \<exists>fu \<in> set (p_functions p).
           fn_name fu = n \<and> fn_file fu = f \<and> f = fi_path (p_file p)"
proof -
  let ?funs = "concat (map p_functions ps)"
  from assms have "add_functions Map.empty ?funs n = Some f"
    by (simp add: symtab_eq [OF assms(1), symmetric])
  then obtain x xs where xs: "filter (\<lambda>f. fn_name f = n) ?funs = x # xs" and f: "f = fn_file (last (x # xs))"
    by (auto simp: add_functions_lookup split: list.splits)
  have "last (x # xs) \<in> set (filter (\<lambda>f. fn_name f = n) ?funs)"
    unfolding xs by (rule last_in_set) simp
  then have l: "last (x # xs) \<in> set ?funs" "fn_name (last (x # xs)) = n" by auto
  then obtain p where p: "p \<in> set ps" "last (x # xs) \<in> set (p_functions p)" by auto
  from parsed_all_keyed(1) [OF assms(1) p(1)] p(2) have "fn_file (last (x # xs)) = fi_path (p_file p)"
    by (auto simp: keyed_by_def)
  with p l f show ?thesis by blast
qed

lemma symtab_nonempty: "first_pass w r = Inr (ps, tab) \<Longrightarrow> tab n = Some f \<Longrightarrow> f \<noteq> []"
  using symtab_value parsed_all_keyed(2) by metis

section \<open>The store under the ingestor's calls\<close>

lemma merge_node_simps:
  "set (g_nodes (merge_node n g)) = insert n (set (g_nodes g))"
  "g_edges (merge_node n g) = g_edges g"
  "distinct (g_nodes (merge_node n g)) = distinct (g_nodes g)"
  by (auto simp: merge_node_def)

lemma merge_edge_simps:
  "set (g_edges (merge_edge a r b g)) = insert (a, r, b) (set (g_edges g))"
  "g_nodes (merge_edge a r b g) = g_nodes g"
  "distinct (g_edges (merge_edge a r b g)) = distinct (g_edges g)"
  by (auto simp: merge_edge_def)

lemma perform_nodes: "set (g_nodes (perform c g)) = set (g_nodes g) \<union> call_nodes c"
  by (cases c)
     (auto simp: ingest_file_def ingest_class_def ingest_function_def ingest_import_def
        ingest_function_call_def ingest_function_used_in_def ingest_endpoint_def
        ingest_class_extends_def Let_def merge_node_simps merge_edge_simps)

lemma perform_edges: "set (g_edges (perform c g)) = set (g_edges g) \<union> call_edges c"
  by (cases c)
     (auto simp: ingest_file_def ingest_class_def ingest_function_def ingest_import_def
        ingest_function_call_def ingest_function_used_in_def ingest_endpoint_def
        ingest_class_extends_def Let_def merge_node_simps merge_edge_simps)

lemma perform_distinct:
  "distinct (g_nodes (perform c g)) = distinct (g_nodes g)"
  "distinct (g_edges (perform c g)) = distinct (g_edges g)"
  by (cases c;
      simp add: ingest_file_def ingest_class_def ingest_function_def ingest_import_def
        ingest_function_call_def ingest_function_used_in_def ingest_endpoint_def
        ingest_class_extends_def Let_def merge_node_simps merge_edge_simps)+

lemma perform_all_nodes:
  "set (g_nodes (perform_all cs g)) = set (g_nodes g) \<union> (\<Union>c \<in> set cs. call_nodes c)"
  unfolding perform_all_def
  by (induction cs arbitrary: g) (auto simp: perform_nodes)

lemma perform_all_edges:
  "set (g_edges (perform_all cs g)) = set (g_edges g) \<union> (\<Union>c \<in> set cs. call_edges c)"
  unfolding perform_all_def
  by (induction cs arbitrary: g) (auto simp: perform_edges)

lemma perform_all_distinct:
  "distinct (g_nodes (perform_all cs g)) = distinct (g_nodes g)"
  "distinct (g_edges (perform_all cs g)) = distinct (g_edges g)"
  unfolding perform_all_def
  by (induction cs arbitrary: g; simp add: perform_distinct)+

lemma count_list_distinct: "distinct xs \<Longrightarrow> x \<in> set xs \<Longrightarrow> count_list xs x = 1"
  by (induction xs) (auto simp: count_list_0_iff)

section \<open>The calls of a full run\<close>

lemma run_full:
  assumes "first_pass w r = Inr (ps, tab)"
  shows "run_ingestion w r False = Inr (concat (map (ingest_parsed w r tab) ps), [])"
    and "calls_made w r False = concat (map (ingest_parsed w r tab) ps)"
  using assms by (simp_all add: run_ingestion_def calls_made_def)


lemma run_dry_calls: "calls_made w r True = []"
  by (simp add: run_ingestion_def calls_made_def split: sum.splits prod.splits)

lemma run_aborted:
  "first_pass w r = Inl e \<Longrightarrow> run_ingestion w r d = Inl e"
  "first_pass w r = Inl e \<Longrightarrow> calls_made w r d = []"
  by (simp_all add: run_ingestion_def calls_made_def)

lemma in_run:
  "first_pass w r = Inr (ps, tab) \<Longrightarrow> p \<in> set ps \<Longrightarrow> c \<in> set (ingest_parsed w r tab p)
     \<Longrightarrow> c \<in> set (calls_made w r False)"
  by (auto simp: run_full)

lemma call_calls_in_parsed:
  "fc \<in> set (p_function_calls p) \<Longrightarrow> c \<in> set (call_calls tab fc)
     \<Longrightarrow> c \<in> set (ingest_parsed w r tab p)"
  by (auto simp: ingest_parsed_def)

lemma used_in_call_calls:
  "Ingest_function_used_in (fc_called fc) (Some (resolved_called_file tab fc)) (fc_caller_file fc)
     \<in> set (call_calls tab fc)"
  by (simp add: call_calls_def Let_def)

lemma call_call_calls:
  "fc_caller fc = Some a \<Longrightarrow> a \<noteq> [] \<Longrightarrow>
   Ingest_function_call a (fc_caller_file fc) (fc_called fc) (Some (resolved_called_file tab fc))
     \<in> set (call_calls tab fc)"
  by (simp add: call_calls_def Let_def)

lemma used_in_emitted:
  "fc \<in> set (p_function_calls p) \<Longrightarrow>
     Ingest_function_used_in (fc_called fc) (Some (resolved_called_file tab fc)) (fc_caller_file fc)
       \<in> set (ingest_parsed w r tab p)"
  by (rule call_calls_in_parsed [OF _ used_in_call_calls])

lemma call_emitted:
  "fc \<in> set (p_function_calls p) \<Longrightarrow> fc_caller fc = Some a \<Longrightarrow> a \<noteq> [] \<Longrightarrow>
     Ingest_function_call a (fc_caller_file fc) (fc_called fc) (Some (resolved_called_file tab fc))
       \<in> set (ingest_parsed w r tab p)"
  by (rule call_calls_in_parsed [OF _ call_call_calls])

lemma function_emitted:
  "fu \<in> set (p_functions p) \<Longrightarrow> Ingest_function fu \<in> set (ingest_parsed w r tab p)"
  by (auto simp: ingest_parsed_def)

lemma endpoint_emitted:
  "e \<in> set (p_endpoints p) \<Longrightarrow> Ingest_endpoint e \<in> set (ingest_parsed w r tab p)"
  by (auto simp: ingest_parsed_def)


section \<open>The breadth-first walk\<close>

lemma children_measure:
  "sum_list (map (\<lambda>c. Suc (size c)) (iter_child_nodes n)) \<le> size n"
proof -
  have le: "sum_list (map (\<lambda>c. Suc (size c)) xs) = size_list size xs" for xs :: "py_ast list"
    by (induction xs) auto
  show ?thesis by (cases n) (simp_all add: le)
qed

lemma walk_queue_append:
  "set (walk_queue (xs @ ys)) = set (walk_queue xs) \<union> set (walk_queue ys)"
proof (induction "sum_list (map (\<lambda>c. Suc (size c)) (xs @ ys))" arbitrary: xs ys rule: less_induct)
  case less
  show ?case
  proof (cases xs)
    case Nil
    then show ?thesis by simp
  next
    case (Cons n xs')
    let ?m = "\<lambda>q. sum_list (map (\<lambda>c. Suc (size c)) q)"
    let ?ch = "iter_child_nodes n"
    have m1: "?m ((xs' @ ys) @ ?ch) < ?m (xs @ ys)"
      using children_measure [of n] by (simp add: Cons)
    have m2: "?m (xs' @ ys) < ?m (xs @ ys)" by (simp add: Cons)
    have m3: "?m (xs' @ ?ch) < ?m (xs @ ys)"
      using children_measure [of n] by (simp add: Cons)
    have "set (walk_queue (xs @ ys)) = insert n (set (walk_queue ((xs' @ ys) @ ?ch)))"
      by (simp add: Cons)
    also have "set (walk_queue ((xs' @ ys) @ ?ch)) = set (walk_queue (xs' @ ys)) \<union> set (walk_queue ?ch)"
      by (rule less [OF m1])
    also have "set (walk_queue (xs' @ ys)) = set (walk_queue xs') \<union> set (walk_queue ys)"
      by (rule less [OF m2])
    finally have l: "set (walk_queue (xs @ ys)) =
        insert n (set (walk_queue xs') \<union> set (walk_queue ys) \<union> set (walk_queue ?ch))" .
    have "set (walk_queue xs) = insert n (set (walk_queue (xs' @ ?ch)))"
      by (simp add: Cons)
    also have "set (walk_queue (xs' @ ?ch)) = set (walk_queue xs') \<union> set (walk_queue ?ch)"
      by (rule less [OF m3])
    finally show ?thesis using l by auto
  qed
qed

lemma walk_queue_union: "set (walk_queue q) = (\<Union>n \<in> set q. set (ast_walk n))"
proof (induction q)
  case Nil
  show ?case by simp
next
  case (Cons n q)
  have "set (walk_queue (n # q)) = set (walk_queue ([n] @ q))" by simp
  also have "\<dots> = set (walk_queue [n]) \<union> set (walk_queue q)" by (rule walk_queue_append)
  finally show ?case by (simp add: Cons.IH ast_walk_def)
qed

lemma ast_walk_set:
  "set (ast_walk n) = insert n (\<Union>c \<in> set (iter_child_nodes n). set (ast_walk c))"
proof -
  have "set (ast_walk n) = insert n (set (walk_queue (iter_child_nodes n)))"
    by (simp add: ast_walk_def)
  then show ?thesis by (simp add: walk_queue_union)
qed

lemma self_in_walk: "n \<in> set (ast_walk n)"
  by (simp add: ast_walk_def)

lemma body_in_walk:
  "s \<in> set body \<Longrightarrow> x \<in> set (ast_walk s) \<Longrightarrow> x \<in> set (ast_walk (FunctionDef n a body d r))"
  by (subst ast_walk_set) auto

section \<open>What the Python extractor records\<close>

lemma python_tree:
  assumes "open_read w Utf8_strict fp = Some src" "ast_parse w src = Some tree"
    and "parse_python_file w fp = Inr (Some p)"
  shows "p_functions p = concat (map (node_functions (rel_to w fp (REPO_ROOT w))) (ast_walk tree))"
    and "p_function_calls p = concat (map (func_calls (rel_to w fp (REPO_ROOT w)))
                                (filter is_FunctionDef (ast_walk tree)))"
    and "p_endpoints p = concat (map (node_endpoints (rel_to w fp (REPO_ROOT w))) (ast_walk tree))"
  using assms(3)
  by (rule python_result; use assms(1,2) in simp)+

lemma python_function:
  assumes "open_read w Utf8_strict fp = Some src" "ast_parse w src = Some tree"
    and "FunctionDef n a b d r \<in> set (ast_walk tree)"
    and "parse_python_file w fp = Inr (Some p)"
  shows "\<lparr>fn_name = n, fn_file = rel_to w fp (REPO_ROOT w)\<rparr> \<in> set (p_functions p)"
proof -
  have "\<lparr>fn_name = n, fn_file = rel_to w fp (REPO_ROOT w)\<rparr>
          \<in> set (node_functions (rel_to w fp (REPO_ROOT w)) (FunctionDef n a b d r))"
    by (simp add: node_functions_def)
  with assms(3) have "\<lparr>fn_name = n, fn_file = rel_to w fp (REPO_ROOT w)\<rparr>
      \<in> set (concat (map (node_functions (rel_to w fp (REPO_ROOT w))) (ast_walk tree)))"
    by auto
  then show ?thesis by (simp only: python_tree(1) [OF assms(1,2,4)])
qed

lemma python_call:
  assumes "open_read w Utf8_strict fp = Some src" "ast_parse w src = Some tree"
    and "FunctionDef n a b d r \<in> set (ast_walk tree)"
    and "Call (Name h) args \<in> set (ast_walk (FunctionDef n a b d r))"
    and "h \<noteq> []"
    and "parse_python_file w fp = Inr (Some p)"
  shows "\<lparr>fc_caller = Some n, fc_caller_file = rel_to w fp (REPO_ROOT w),
          fc_called = h, fc_called_file = None\<rparr> \<in> set (p_function_calls p)"
proof -
  let ?rel = "rel_to w fp (REPO_ROOT w)"
  let ?fc = "\<lparr>fc_caller = Some n, fc_caller_file = ?rel, fc_called = h, fc_called_file = None\<rparr>"
  have "?fc \<in> set (sub_calls n ?rel (Call (Name h) args))"
    using assms(5) by (simp add: sub_calls_def called_name_def)
  with assms(4) have "?fc \<in> set (func_calls ?rel (FunctionDef n a b d r))"
    by (auto simp: func_calls_def def_name_def)
  moreover have "FunctionDef n a b d r \<in> set (filter is_FunctionDef (ast_walk tree))"
    using assms(3) by (simp add: is_FunctionDef_def)
  ultimately have "?fc \<in> set (concat (map (func_calls ?rel) (filter is_FunctionDef (ast_walk tree))))"
    unfolding set_concat set_map by blast
  then show ?thesis by (simp only: python_tree(2) [OF assms(1,2,6)])
qed

lemma perform_calls_edges: "\<not> is_function_call c \<Longrightarrow> calls_edges (perform c g) = calls_edges g"
  by (cases c)
     (simp_all add: is_function_call_def ingest_file_def ingest_class_def ingest_function_def
        ingest_import_def ingest_function_used_in_def ingest_endpoint_def
        ingest_class_extends_def Let_def calls_edges_def merge_edge_def merge_node_def)

lemma perform_all_calls_edges:
  "\<forall>c \<in> set cs. \<not> is_function_call c \<Longrightarrow> calls_edges (perform_all cs g) = calls_edges g"
  unfolding perform_all_def
  by (induction cs arbitrary: g) (simp_all add: perform_calls_edges)

lemma js_callers:
  "parse_js_like_file w fp lk = Some r \<Longrightarrow> fc \<in> set (p_function_calls r) \<Longrightarrow> fc_caller fc = None"
  by (auto simp: parse_js_like_file_def Let_def split: option.splits)

lemma call_calls_unknown:
  "fc_caller fc = None \<Longrightarrow> c \<in> set (call_calls tab fc) \<Longrightarrow> \<not> is_function_call c"
  by (auto simp: call_calls_def Let_def is_function_call_def)

lemma import_calls_not_call: "c \<in> set (import_calls w r p i) \<Longrightarrow> \<not> is_function_call c"
  by (auto simp: import_calls_def is_function_call_def split: option.splits if_splits)

lemma class_calls_not_call: "c \<in> set (class_calls cls) \<Longrightarrow> \<not> is_function_call c"
  by (auto simp: class_calls_def is_function_call_def)

lemma ingest_parsed_no_call:
  assumes "\<forall>fc \<in> set (p_function_calls p). fc_caller fc = None"
    and "c \<in> set (ingest_parsed w r tab p)"
  shows "\<not> is_function_call c"
proof -
  from assms(2) consider "c = Ingest_file (p_file p)"
    | cls where "cls \<in> set (p_classes p)" "c \<in> set (class_calls cls)"
    | fu where "c = Ingest_function fu"
    | e where "c = Ingest_endpoint e"
    | i where "c \<in> set (import_calls w r (fi_path (p_file p)) i)"
    | fc where "fc \<in> set (p_function_calls p)" "c \<in> set (call_calls tab fc)"
    by (auto simp: ingest_parsed_def)
  then show ?thesis
  proof cases
    case 6
    with assms(1) show ?thesis by (auto dest: call_calls_unknown)
  qed (auto simp: is_function_call_def dest: class_calls_not_call import_calls_not_call)
qed

section \<open>Where a call of the run comes from\<close>

lemma function_call_origin:
  assumes "Ingest_function_call a af cd cf \<in> set (ingest_parsed w r tab p)"
  shows "\<exists>fc \<in> set (p_function_calls p). fc_caller fc = Some a \<and> a \<noteq> [] \<and>
           af = fc_caller_file fc \<and> cd = fc_called fc \<and> cf = Some (resolved_called_file tab fc)"
proof -
  from assms obtain fc where fc: "fc \<in> set (p_function_calls p)"
      and c: "Ingest_function_call a af cd cf \<in> set (call_calls tab fc)"
    by (auto simp: ingest_parsed_def class_calls_def import_calls_def
             split: option.splits if_splits)
  from c have "fc_caller fc = Some a \<and> a \<noteq> [] \<and> af = fc_caller_file fc \<and> cd = fc_called fc
      \<and> cf = Some (resolved_called_file tab fc)"
    by (auto simp: call_calls_def Let_def split: option.splits if_splits)
  with fc show ?thesis by blast
qed

lemma used_in_origin:
  assumes "Ingest_function_used_in cd cf u \<in> set (ingest_parsed w r tab p)"
  shows "\<exists>fc \<in> set (p_function_calls p).
           u = fc_caller_file fc \<and> cd = fc_called fc \<and> cf = Some (resolved_called_file tab fc)"
proof -
  from assms obtain fc where fc: "fc \<in> set (p_function_calls p)"
      and c: "Ingest_function_used_in cd cf u \<in> set (call_calls tab fc)"
    by (auto simp: ingest_parsed_def class_calls_def import_calls_def
             split: option.splits if_splits)
  from c have "u = fc_caller_file fc \<and> cd = fc_called fc
      \<and> cf = Some (resolved_called_file tab fc)"
    by (auto simp: call_calls_def Let_def split: option.splits if_splits)
  with fc show ?thesis by blast
qed

lemma resolved_nonempty: "fc_caller_file fc \<noteq> [] \<Longrightarrow> resolved_called_file tab fc \<noteq> []"
  by (auto simp: resolved_called_file_def split: option.splits)

lemma parse_or_degenerate_relative:
  assumes "parse_or_degenerate w root full = Inr p"
  shows "\<not> startswith (fi_path (p_file p)) ''/''"
  using assms
proof (cases rule: parse_or_degenerate_cases)
  case 1
  then show ?thesis
    by (simp add: degenerate_def file_info_of_def rel_to_relative)
next
  case 2
  then show ?thesis
    using any_keyed(1) [OF 2] by (simp add: rel_to_relative)
qed

lemma parsed_all_relative:
  assumes "first_pass w r = Inr (ps, tab)" and "p \<in> set ps"
  shows "\<not> startswith (fi_path (p_file p)) ''/''"
proof -
  from assms obtain d f where "parse_or_degenerate w r (path_join d f) = Inr p"
    by (rule record_origin)
  then show ?thesis by (rule parse_or_degenerate_relative)
qed

lemma caller_file_of_record:
  "first_pass w r = Inr (ps, tab) \<Longrightarrow> p \<in> set ps \<Longrightarrow> fc \<in> set (p_function_calls p)
     \<Longrightarrow> fc_caller_file fc = fi_path (p_file p)"
  using parsed_all_keyed(1) by (auto simp: keyed_by_def)

lemma run_calls_origin:
  assumes "c \<in> set (calls_made w r dry)"
  obtains ps tab p where "first_pass w r = Inr (ps, tab)" "p \<in> set ps"
    "c \<in> set (ingest_parsed w r tab p)"
proof (cases "first_pass w r")
  case (Inl e)
  with assms show ?thesis by (simp add: run_aborted)
next
  case (Inr res)
  obtain ps tab where res: "res = (ps, tab)" by (cases res)
  have fp: "first_pass w r = Inr (ps, tab)" using Inr res by simp
  show ?thesis
  proof (cases dry)
    case True
    with assms show ?thesis by (simp add: run_dry_calls)
  next
    case False
    with assms fp obtain p where "p \<in> set ps" "c \<in> set (ingest_parsed w r tab p)"
      by (auto simp: run_full)
    with fp that show ?thesis by blast
  qed
qed

section \<open>The symbol table and the store after a run\<close>

lemma store_after_nodes:
  "c \<in> set (calls_made w r d) \<Longrightarrow> n \<in> call_nodes c
     \<Longrightarrow> n \<in> set (g_nodes (store_after w r d g))"
  by (auto simp: store_after_def perform_all_nodes)

lemma store_after_edges:
  "c \<in> set (calls_made w r d) \<Longrightarrow> e \<in> call_edges c
     \<Longrightarrow> e \<in> set (g_edges (store_after w r d g))"
  by (auto simp: store_after_def perform_all_edges)

lemma resolved_in_run:
  assumes "first_pass w r = Inr (ps, tab)"
  shows "resolved_called_file tab fc =
           (case tab (fc_called fc) of
              None \<Rightarrow> fc_caller_file fc
            | Some f \<Rightarrow> f)"
  by (auto simp: resolved_called_file_def split: option.splits
           dest: symtab_nonempty [OF assms])

lemma add_functions_absent:
  "\<forall>fu \<in> set funs. fn_name fu \<noteq> n \<Longrightarrow> add_functions tab funs n = tab n"
proof -
  assume "\<forall>fu \<in> set funs. fn_name fu \<noteq> n"
  then have "filter (\<lambda>f. fn_name f = n) funs = []" by (auto simp: filter_empty_conv)
  then show ?thesis by (simp add: add_functions_lookup)
qed

lemma add_functions_present:
  assumes "fu \<in> set funs" "fn_name fu = n"
    and "\<forall>fu \<in> set funs. fn_name fu = n \<longrightarrow> fn_file fu = f"
  shows "add_functions tab funs n = Some f"
proof -
  from assms(1,2) have ne: "filter (\<lambda>f. fn_name f = n) funs \<noteq> []"
    by (auto simp: filter_empty_conv)
  then obtain x xs where xs: "filter (\<lambda>f. fn_name f = n) funs = x # xs"
    by (cases "filter (\<lambda>f. fn_name f = n) funs") auto
  have "last (x # xs) \<in> set (filter (\<lambda>f. fn_name f = n) funs)"
    unfolding xs by (rule last_in_set) simp
  with assms(3) have "fn_file (last (x # xs)) = f" by auto
  then show ?thesis by (simp add: add_functions_lookup xs)
qed

lemma symtab_last_definer:
  assumes j: "j < length ps"
    and def_j: "fu \<in> set (p_functions (ps ! j))" "fn_name fu = n"
    and keyed: "\<forall>fu \<in> set (p_functions (ps ! j)). fn_file fu = f"
    and later: "\<forall>k < length ps. j < k \<longrightarrow> (\<forall>fu \<in> set (p_functions (ps ! k)). fn_name fu \<noteq> n)"
  shows "add_functions tab (concat (map p_functions ps)) n = Some f"
proof -
  have split: "ps = take j ps @ [ps ! j] @ drop (Suc j) ps"
    using j by (simp add: id_take_nth_drop [symmetric])
  let ?A = "concat (map p_functions (take j ps))"
  let ?B = "p_functions (ps ! j)"
  let ?C = "concat (map p_functions (drop (Suc j) ps))"
  have cat: "concat (map p_functions ps) = ?A @ ?B @ ?C"
    by (subst split) simp
  have C: "\<forall>fu \<in> set ?C. fn_name fu \<noteq> n"
  proof
    fix fu assume "fu \<in> set ?C"
    then obtain q where q: "q \<in> set (drop (Suc j) ps)" "fu \<in> set (p_functions q)" by auto
    then obtain i where i: "i < length (drop (Suc j) ps)" "q = drop (Suc j) ps ! i"
      by (auto simp: in_set_conv_nth)
    then have "q = ps ! (Suc j + i)" "Suc j + i < length ps" by auto
    with later q(2) show "fn_name fu \<noteq> n" by auto
  qed
  have "add_functions tab (concat (map p_functions ps)) n
          = add_functions (add_functions (add_functions tab ?A) ?B) ?C n"
    by (simp add: cat add_functions_append)
  also have "\<dots> = add_functions (add_functions tab ?A) ?B n"
    by (rule add_functions_absent [OF C])
  also have "\<dots> = Some f"
    using def_j keyed by (intro add_functions_present) auto
  finally show ?thesis .
qed

lemma scanned_record:
  assumes "first_pass w r = Inr (ps, tab)"
    and "(d, f) \<in> set (scanned_files w r)" "recognised f"
  obtains p where "p \<in> set ps" "parse_or_degenerate w r (path_join d f) = Inr p"
proof -
  have "(d, f) \<in> set (filter (\<lambda>(d, f). recognised f) (scanned_files w r))"
    using assms(2,3) by simp
  from list_all2_left [OF parsed_all_eq [OF assms(1)] this] that show ?thesis by auto
qed

lemma python_route:
  assumes "EXT_LANG_MAP (snd (splitext (lower fp))) = Some ''python''"
  shows "parse_any_file w fp = parse_python_file w fp"
  using assms by (simp add: parse_any_file_def)

lemma python_record:
  assumes "EXT_LANG_MAP (snd (splitext (lower fp))) = Some ''python''"
    and "open_read w Utf8_strict fp = Some src" "ast_parse w src = Some tree"
    and "parse_or_degenerate w r fp = Inr p"
  shows "parse_python_file w fp = Inr (Some p)"
proof -
  have "parse_python_file w fp \<noteq> Inr None"
    using assms(2,3) by (simp add: parse_python_file_def Let_def split: sum.splits)
  with assms(4) show ?thesis
    by (auto simp: parse_or_degenerate_def python_route [OF assms(1)]
             split: sum.splits option.splits)
qed

section \<open>Endpoint records\<close>

lemma decorator_endpoints_count:
  "length (filter (\<lambda>e. ep_decorator e = k) (decorator_endpoints n p d))
     = (if is_route k d then 1 else 0)"
proof (cases "\<exists>k'. is_route k' d")
  case True
  then obtain k' where k': "is_route k' d" by blast
  then have e: "decorator_endpoints n p d = [\<lparr>ep_name = n, ep_file = p, ep_decorator = k'\<rparr>]"
    by (auto simp: is_route_def decorator_endpoints_def Let_def split: py_ast.splits)
  have "is_route k d \<longleftrightarrow> k' = k"
    using k' by (auto simp: is_route_def split: py_ast.splits)
  then show ?thesis by (simp add: e)
next
  case False
  then have "decorator_endpoints n p d = []"
    by (auto simp: is_route_def decorator_endpoints_def Let_def split: py_ast.splits)
  with False show ?thesis by simp
qed

lemma length_filter_concat:
  "length (filter P (concat xss)) = sum_list (map (\<lambda>xs. length (filter P xs)) xss)"
  by (induction xss) auto

lemma sum_list_indicator:
  "sum_list (map (\<lambda>x. if P x then 1 else 0) xs) = length (filter P xs)"
  by (induction xs) auto

lemma node_endpoints_count:
  "length (filter (\<lambda>e. ep_decorator e = k)
     (node_endpoints p (FunctionDef n a b decs r))) = length (filter (is_route k) decs)"
  by (simp add: node_endpoints_def length_filter_concat comp_def decorator_endpoints_count
        sum_list_indicator)

lemma node_endpoints_member:
  "d \<in> set decs \<Longrightarrow> is_route k d \<Longrightarrow>
     \<lparr>ep_name = n, ep_file = p, ep_decorator = k\<rparr>
       \<in> set (node_endpoints p (FunctionDef n a b decs r))"
proof -
  assume d: "d \<in> set decs" and k: "is_route k d"
  then have "decorator_endpoints n p d = [\<lparr>ep_name = n, ep_file = p, ep_decorator = k\<rparr>]"
    by (auto simp: is_route_def decorator_endpoints_def Let_def split: py_ast.splits)
  with d show ?thesis by (force simp: node_endpoints_def)
qed

lemma node_endpoints_key:
  "e \<in> set (node_endpoints p (FunctionDef n a b decs r)) \<Longrightarrow> ep_name e = n \<and> ep_file e = p"
  by (auto simp: node_endpoints_def dest: decorator_endpoints_file)

lemma python_endpoint:
  assumes "open_read w Utf8_strict fp = Some src" "ast_parse w src = Some tree"
    and "node \<in> set (ast_walk tree)"
    and "e \<in> set (node_endpoints (repo_rel w fp) node)"
    and "parse_python_file w fp = Inr (Some p)"
  shows "e \<in> set (p_endpoints p)"
proof -
  from assms(3,4) have "e \<in> set (concat (map (node_endpoints (repo_rel w fp)) (ast_walk tree)))"
    by auto
  then show ?thesis by (simp only: python_tree(3) [OF assms(1,2,5)])
qed

lemma store_after_distinct:
  "distinct (g_nodes (store_after w r d g)) = distinct (g_nodes g)"
  "distinct (g_edges (store_after w r d g)) = distinct (g_edges g)"
  by (simp_all add: store_after_def perform_all_distinct)

section \<open>File nodes and imports\<close>

lemma filter_none: "\<forall>x \<in> set xs. \<not> P x \<Longrightarrow> filter P xs = []"
  by (simp add: filter_empty_conv)









lemma import_probe_order:
  assumes "i < length IMPORT_EXTS"
    and "isfile w (probe r (import_candidate imp) (IMPORT_EXTS ! i))"
    and "\<forall>j < i. \<not> isfile w (probe r (import_candidate imp) (IMPORT_EXTS ! j))"
  shows "import_calls w r from_path imp =
           [Ingest_import from_path (rel_to w (probe r (import_candidate imp) (IMPORT_EXTS ! i)) r)]"
proof -
  let ?P = "\<lambda>e. isfile w (probe r (import_candidate imp) e)"
  have split: "IMPORT_EXTS = take i IMPORT_EXTS @ (IMPORT_EXTS ! i) # drop (Suc i) IMPORT_EXTS"
    using assms(1) by (rule id_take_nth_drop)
  have "\<forall>e \<in> set (take i IMPORT_EXTS). \<not> ?P e"
    using assms(1,3) by (auto simp: in_set_conv_nth)
  then have "filter ?P (take i IMPORT_EXTS) = []" by (rule filter_none)
  then have "filter ?P IMPORT_EXTS = (IMPORT_EXTS ! i) # filter ?P (drop (Suc i) IMPORT_EXTS)"
    using assms(2) by (subst split) simp
  then show ?thesis
    by (simp add: import_calls_def resolve_import_def Let_def rel_to_nonempty)
qed

lemma import_probe_none:
  assumes "\<forall>e \<in> set IMPORT_EXTS. \<not> isfile w (probe r (import_candidate imp) e)"
  shows "import_calls w r from_path imp = []"
proof -
  have "filter (\<lambda>e. isfile w (probe r (import_candidate imp) e)) IMPORT_EXTS = []"
    using assms by (rule filter_none)
  then show ?thesis by (simp add: import_calls_def resolve_import_def Let_def)
qed

lemma probe_under_root:
  "\<not> startswith candidate ''/'' \<Longrightarrow> candidate \<noteq> [] \<Longrightarrow>
     probe r candidate e = (if r = [] \<or> last r = CHR ''/'' then r @ candidate @ e
                            else r @ ''/'' @ candidate @ e)"
  by (cases candidate) (auto simp: probe_def path_join_def startswith_def)

lemma probe_absolute:
  "startswith candidate ''/'' \<Longrightarrow> probe r candidate e = candidate @ e"
  by (cases candidate) (auto simp: probe_def path_join_def startswith_def)

lemma path_join_right_nonempty: "b \<noteq> [] \<Longrightarrow> path_join a b \<noteq> []"
  by (auto simp: path_join_def)

lemma recognised_nonempty: "recognised fname \<Longrightarrow> path_join root fname \<noteq> []"
proof -
  assume r: "recognised fname"
  have "\<not> recognised []"
    by (simp add: recognised_def splitext_def basename_def lower_def EXT_LANG_MAP_def)
  with r have "fname \<noteq> []" by auto
  then show ?thesis by (rule path_join_right_nonempty)
qed

lemma routed_nonempty: "parse_any_file w filepath \<noteq> Inr None \<Longrightarrow> filepath \<noteq> []"
proof
  assume p: "parse_any_file w filepath \<noteq> Inr None" and e: "filepath = []"
  have "EXT_LANG_MAP (snd (splitext (lower []))) = None"
    by (simp add: splitext_def basename_def lower_def EXT_LANG_MAP_def)
  with p e show False by (simp add: parse_any_file_def)
qed

lemma probe_nonempty: "e \<in> set IMPORT_EXTS \<Longrightarrow> probe r candidate e \<noteq> []"
  by (auto simp: probe_def IMPORT_EXTS_def intro!: path_join_right_nonempty)

section \<open>Relative paths and the files they name\<close>






















section \<open>Runs that an exception ends\<close>

lemma exn_unique: "e = RecursionError"
  by (cases e) simp

lemma map_exn_raises: "x \<in> set xs \<Longrightarrow> f x = Inl e \<Longrightarrow> map_exn f xs = Inl RecursionError"
proof (induction xs)
  case Nil
  then show ?case by simp
next
  case (Cons y ys)
  then show ?case by (auto split: sum.splits intro: exn_unique)
qed

lemma python_raises:
  assumes "open_read w Utf8_strict fp = Some src" "ast_parse w src = Some tree"
    and "ClassDef n bases rest \<in> set (ast_walk tree)" and "b \<in> set bases"
    and "base_name w b = Inl e"
  shows "parse_python_file w fp = Inl RecursionError"
proof -
  have "map_exn (base_name w) bases = Inl RecursionError"
    using assms(4,5) by (rule map_exn_raises)
  then have "node_classes w (rel_to w fp (REPO_ROOT w)) (ClassDef n bases rest) = Inl RecursionError"
    by (simp add: node_classes_def)
  with assms(3)
  have "map_exn (node_classes w (rel_to w fp (REPO_ROOT w))) (ast_walk tree) = Inl RecursionError"
    by (rule map_exn_raises)
  then show ?thesis using assms(1,2) by (simp add: parse_python_file_def Let_def)
qed

lemma first_pass_loop_raises:
  assumes "(d, f) \<in> set items" "recognised f"
    and "parse_or_degenerate w r (path_join d f) = Inl e"
  shows "fold_exn (visit_file w r) acc items = Inl RecursionError"
  using assms(1)
proof (induction items arbitrary: acc)
  case Nil
  then show ?case by simp
next
  case (Cons it items)
  obtain ps tab where acc: "acc = (ps, tab)" by (cases acc)
  obtain d' f' where it: "it = (d', f')" by (cases it)
  show ?case
  proof (cases "it = (d, f)")
    case True
    then show ?thesis
      using assms(2,3) exn_unique [of e] by (simp add: acc visit_file_step)
  next
    case False
    with Cons.prems have "(d, f) \<in> set items" by simp
    then have "fold_exn (visit_file w r) acc' items = Inl RecursionError" for acc'
      by (rule Cons.IH)
    then show ?thesis
      by (auto simp: acc it visit_file_step split: sum.splits intro: exn_unique)
  qed
qed

text \<open>
  One file on which an extractor raises ends the run in the first pass, whatever the
  other files are: the ingestor receives no call and the store is left as it was.
\<close>

lemma uncaught_exception_ends_run:
  assumes "(d, f) \<in> set (scanned_files w r)" "recognised f"
    and "parse_any_file w (path_join d f) = Inl e"
  shows "first_pass w r = Inl RecursionError" and "run_ingestion w r dry = Inl RecursionError"
    and "calls_made w r dry = []" and "store_after w r dry g = g"
proof -
  have "parse_or_degenerate w r (path_join d f) = Inl e"
    using assms(3) by (simp add: parse_or_degenerate_def)
  then show 1: "first_pass w r = Inl RecursionError"
    unfolding first_pass_def by (rule first_pass_loop_raises [OF assms(1,2)])
  then show "run_ingestion w r dry = Inl RecursionError" and 2: "calls_made w r dry = []"
    by (simp_all add: run_aborted)
  show "store_after w r dry g = g"
    by (simp add: store_after_def 2 perform_all_def)
qed

lemma walk_children_raises:
  "c \<in> set cs \<Longrightarrow> walk room anc c = Inl e \<Longrightarrow> walk_children room anc cs = Inl RecursionError"
proof (induction cs)
  case Nil
  then show ?case by simp
next
  case (Cons a cs)
  then show ?case by (auto split: sum.splits intro: exn_unique)
qed

lemma walk_nest: "room \<le> n \<Longrightarrow> walk room anc (nest n) = Inl RecursionError"
proof (induction room arbitrary: n anc)
  case 0
  then show ?case by simp
next
  case (Suc room)
  then obtain m where n: "n = Suc m" and m: "room \<le> m" by (cases n) auto
  have "walk room anc' (nest m) = Inl RecursionError" for anc'
    using m by (rule Suc.IH)
  then have "walk_children room anc' (ts_children (nest n)) = Inl RecursionError" for anc'
    by (intro walk_children_raises [where c = "nest m"]) (simp_all add: n)
  then show ?case by simp
qed

lemma walk_above_nest:
  assumes "room \<le> n + 2"
  shows "walk room anc (TSNode t x nm [TSNode t' x' nm' [nest n]]) = Inl RecursionError"
proof (cases room)
  case 0
  then show ?thesis by simp
next
  case (Suc r)
  show ?thesis
  proof (cases r)
    case 0
    then show ?thesis by (simp add: Suc)
  next
    case (Suc r')
    then have "r' \<le> n" using assms \<open>room = Suc r\<close> by simp
    then have "walk r' anc' (nest n) = Inl RecursionError" for anc'
      by (rule walk_nest)
    then show ?thesis by (simp add: Suc \<open>room = Suc r\<close>)
  qed
qed

lemma walk_nested_tree: "walk 990 [] nested_tree = Inl RecursionError"
  unfolding nested_tree_def by (rule walk_above_nest) simp

lemma ts_raises:
  assumes "LANGUAGE_PARSERS w lk = Some parser" "open_read w Binary fp = Some bytes"
    and "parser bytes = Some root" and "walk (recursion_limit w) [] root = Inl e"
  shows "parse_with_treesitter w fp lk = Inl e"
  using assms by (simp add: parse_with_treesitter_def Let_def)

text \<open>
  In \<open>deep_world\<close> the walk yields \<open>ok.py\<close> and then \<open>deep.py\<close>; \<open>ast.dump\<close> raises on the
  base of the class in \<open>deep.py\<close>, and the run ends with no File node, for \<open>ok.py\<close>
  neither. In \<open>nested_world\<close> the generator \<open>walk\<close> runs out of frames on \<open>deep.js\<close>.
\<close>

lemma base_name_call_chain: "0 < n \<Longrightarrow> base_name w (call_chain n) = ast_dump w (call_chain n)"
  by (cases n) (simp_all add: base_name_def)

lemma deep_python_file: "parse_any_file deep_world ''repo/deep.py'' = Inl RecursionError"
proof -
  have r: "EXT_LANG_MAP (snd (splitext (lower ''repo/deep.py''))) = Some ''python''"
    by code_simp
  have o: "open_read deep_world Utf8_strict ''repo/deep.py'' = Some deep_src"
    by (simp add: deep_world_def)
  have p: "ast_parse deep_world deep_src = Some deep_tree"
    by (simp add: deep_world_def)
  have c: "ClassDef ''A'' [call_chain 1000] [Other []] \<in> set (ast_walk deep_tree)"
    unfolding deep_tree_def by (subst ast_walk_set) (simp add: self_in_walk)
  have d: "base_name deep_world (call_chain 1000) = Inl RecursionError"
    by (simp add: base_name_call_chain) (simp add: deep_world_def)
  have "parse_python_file deep_world ''repo/deep.py'' = Inl RecursionError"
    by (rule python_raises [OF o p c _ d]) simp
  then show ?thesis by (simp add: python_route [OF r])
qed

lemma uncaught_exception_example:
  "(''repo'', ''ok.py'') \<in> set (scanned_files deep_world ''repo'')
   \<and> recognised ''ok.py''
   \<and> (''repo'', ''deep.py'') \<in> set (scanned_files deep_world ''repo'')
   \<and> recognised ''deep.py''
   \<and> run_ingestion deep_world ''repo'' False = Inl RecursionError
   \<and> calls_made deep_world ''repo'' False = []
   \<and> store_after deep_world ''repo'' False empty_graph = empty_graph"
proof -
  have 1: "(''repo'', ''ok.py'') \<in> set (scanned_files deep_world ''repo'')"
    by (simp add: scanned_files_def deep_world_def)
  have 2: "recognised ''ok.py''" by code_simp
  have 3: "(''repo'', ''deep.py'') \<in> set (scanned_files deep_world ''repo'')"
    by (simp add: scanned_files_def deep_world_def)
  have 4: "recognised ''deep.py''" by code_simp
  have 5: "parse_any_file deep_world (path_join ''repo'' ''deep.py'') = Inl RecursionError"
    using deep_python_file by (simp add: path_join_def startswith_def)
  note t = uncaught_exception_ends_run [OF 3 4 5]
  from 1 2 3 4 t(2) [of False] t(3) [of False] t(4) [of False empty_graph]
  show ?thesis by blast
qed

lemma deep_tree_sitter_file:
  "parse_with_treesitter nested_world ''repo/deep.js'' ''javascript'' = Inl RecursionError"
proof -
  have l: "LANGUAGE_PARSERS nested_world ''javascript''
             = Some (\<lambda>bytes. if bytes = nested_src then Some nested_tree else None)"
    by (simp add: nested_world_def)
  have o: "open_read nested_world Binary ''repo/deep.js'' = Some nested_src"
    by (simp add: nested_world_def)
  have p: "(\<lambda>bytes. if bytes = nested_src then Some nested_tree else None) nested_src
             = Some nested_tree" by simp
  have w: "walk (recursion_limit nested_world) [] nested_tree = Inl RecursionError"
    by (simp add: nested_world_def walk_nested_tree)
  show ?thesis by (rule ts_raises [OF l o p w])
qed

section \<open>Two names for one root\<close>

text \<open>
  The extractors take paths relative to the global \<open>REPO_ROOT\<close>; the degenerate record
  and the import targets are relative to the argument \<open>repo_root\<close>. Where the two name
  different directories, one file can get two File nodes and two files one: in
  \<open>proj_world\<close> the file \<open>proj/a.py\<close> has the File node of its own record and the one
  merged as the target of \<open>import a\<close>; in \<open>sub_world\<close> the record of \<open>repo/sub/a.py\<close> and
  the degenerate record of \<open>repo/sub/sub/a.py\<close> both carry the path \<open>sub/a.py\<close>.
\<close>

lemma root_mismatch_example:
  "filter is_file_node (g_nodes (store_after proj_world ''proj'' False empty_graph))
     = [File_node ''../proj/a.py'', File_node ''../proj/c.py'', File_node ''a.py'']"
  by code_simp

lemma root_mismatch_shared_node:
  "filter (\<lambda>(root, fname). recognised fname) (scanned_files sub_world ''repo/sub'')
     = [(''repo/sub'', ''a.py''), (''repo/sub/sub'', ''a.py'')]
   \<and> path_parts sub_world ''repo/sub/a.py'' \<noteq> path_parts sub_world ''repo/sub/sub/a.py''
   \<and> filter is_file_node (g_nodes (store_after sub_world ''repo/sub'' False empty_graph))
       = [File_node ''sub/a.py'']"
  by code_simp

section \<open>Completed first passes, import targets and dry-run lines\<close>

lemma completed: "\<not> isl x \<Longrightarrow> x = Inr (fst (projr x), snd (projr x))"
  by (cases x) simp_all





section \<open>The claims\<close>

subsection \<open>C1\<close>

text \<open>
  C1. Let a scanned Python file \<open>a\<close> define a function \<open>helper\<close> and a scanned Python file
  \<open>b\<close> define a function \<open>main\<close> whose body holds a call \<open>helper(...)\<close>, and let every
  definition of \<open>helper\<close> in the tree be in \<open>a\<close>. Then a full run calls
  \<open>ingest_function\<close> for (\<open>helper\<close>, \<open>a\<close>) and for (\<open>main\<close>, \<open>b\<close>),
  \<open>ingest_function_call\<close> from (\<open>main\<close>, \<open>b\<close>) to (\<open>helper\<close>, \<open>a\<close>) and
  \<open>ingest_function_used_in\<close> for (\<open>helper\<close>, \<open>a\<close>) in \<open>b\<close>, and the store then holds the
  two Function nodes, the \<open>CALLS\<close> relationship and the \<open>USED_IN\<close> relationship. Files are
  named by the relative paths the extractor gives them. A full run is one whose first
  pass no exception ends: it returns \<open>parsed_all\<close> and \<open>func_name_to_file\<close>.
\<close>

theorem resolution_example:
  assumes completes: "first_pass w repo_root = Inr (parsed_all, func_name_to_file)"
    and scanned_a: "(dir_a, name_a) \<in> set (scanned_files w repo_root)" "recognised name_a"
    and python_a: "EXT_LANG_MAP (snd (splitext (lower (path_join dir_a name_a)))) = Some ''python''"
    and read_a: "open_read w Utf8_strict (path_join dir_a name_a) = Some source_a"
    and parse_a: "ast_parse w source_a = Some tree_a"
    and def_a: "FunctionDef helper args_a body_a decorators_a rest_a \<in> set (ast_walk tree_a)"
    and scanned_b: "(dir_b, name_b) \<in> set (scanned_files w repo_root)" "recognised name_b"
    and python_b: "EXT_LANG_MAP (snd (splitext (lower (path_join dir_b name_b)))) = Some ''python''"
    and read_b: "open_read w Utf8_strict (path_join dir_b name_b) = Some source_b"
    and parse_b: "ast_parse w source_b = Some tree_b"
    and def_b: "FunctionDef main args_b body_b decorators_b rest_b \<in> set (ast_walk tree_b)"
    and call_b: "stmt \<in> set body_b" "Call (Name helper) call_args \<in> set (ast_walk stmt)"
    and names: "helper \<noteq> []" "main \<noteq> []"
    and only_a: "\<forall>p \<in> set parsed_all. \<forall>fu \<in> set (p_functions p).
                   fn_name fu = helper \<longrightarrow> fn_file fu = repo_rel w (path_join dir_a name_a)"
  shows "Ingest_function \<lparr>fn_name = helper, fn_file = repo_rel w (path_join dir_a name_a)\<rparr>
           \<in> set (calls_made w repo_root False)
       \<and> Ingest_function \<lparr>fn_name = main, fn_file = repo_rel w (path_join dir_b name_b)\<rparr>
           \<in> set (calls_made w repo_root False)
       \<and> Ingest_function_call main (repo_rel w (path_join dir_b name_b)) helper
            (Some (repo_rel w (path_join dir_a name_a)))
           \<in> set (calls_made w repo_root False)
       \<and> Ingest_function_used_in helper (Some (repo_rel w (path_join dir_a name_a)))
            (repo_rel w (path_join dir_b name_b))
           \<in> set (calls_made w repo_root False)
       \<and> Function_node helper (repo_rel w (path_join dir_a name_a))
           \<in> set (g_nodes (store_after w repo_root False g))
       \<and> Function_node main (repo_rel w (path_join dir_b name_b))
           \<in> set (g_nodes (store_after w repo_root False g))
       \<and> (Function_node main (repo_rel w (path_join dir_b name_b)), CALLS,
           Function_node helper (repo_rel w (path_join dir_a name_a)))
           \<in> set (g_edges (store_after w repo_root False g))
       \<and> (Function_node helper (repo_rel w (path_join dir_a name_a)), USED_IN,
           File_node (repo_rel w (path_join dir_b name_b)))
           \<in> set (g_edges (store_after w repo_root False g))"
proof -
  let ?pa = "repo_rel w (path_join dir_a name_a)"
  let ?pb = "repo_rel w (path_join dir_b name_b)"
  let ?tab = "func_name_to_file"
  let ?calls = "calls_made w repo_root False"
  obtain ra where ra_in: "ra \<in> set parsed_all"
      and ra_rec: "parse_or_degenerate w repo_root (path_join dir_a name_a) = Inr ra"
    by (rule scanned_record [OF completes scanned_a])
  obtain rb where rb_in: "rb \<in> set parsed_all"
      and rb_rec: "parse_or_degenerate w repo_root (path_join dir_b name_b) = Inr rb"
    by (rule scanned_record [OF completes scanned_b])
  have ra: "parse_python_file w (path_join dir_a name_a) = Inr (Some ra)"
    by (rule python_record [OF python_a read_a parse_a ra_rec])
  have rb: "parse_python_file w (path_join dir_b name_b) = Inr (Some rb)"
    by (rule python_record [OF python_b read_b parse_b rb_rec])
  have fa: "\<lparr>fn_name = helper, fn_file = ?pa\<rparr> \<in> set (p_functions ra)"
    by (rule python_function [OF read_a parse_a def_a ra])
  have fb: "\<lparr>fn_name = main, fn_file = ?pb\<rparr> \<in> set (p_functions rb)"
    by (rule python_function [OF read_b parse_b def_b rb])
  let ?fc = "\<lparr>fc_caller = Some main, fc_caller_file = ?pb, fc_called = helper,
              fc_called_file = None\<rparr>"
  have "Call (Name helper) call_args
          \<in> set (ast_walk (FunctionDef main args_b body_b decorators_b rest_b))"
    by (rule body_in_walk [OF call_b])
  then have fc: "?fc \<in> set (p_function_calls rb)"
    by (rule python_call [OF read_b parse_b def_b _ names(1) rb])
  text \<open>the symbol table sends \<open>helper\<close> to \<open>a\<close>\<close>
  have "?tab helper \<noteq> None"
  proof -
    have "\<lparr>fn_name = helper, fn_file = ?pa\<rparr>
            \<in> set (concat (map p_functions parsed_all))"
      using fa ra_in by auto
    moreover have "fn_name \<lparr>fn_name = helper, fn_file = ?pa\<rparr> = helper" by simp
    ultimately have "\<exists>fu \<in> set (concat (map p_functions parsed_all)).
                       fn_name fu = helper"
      by (rule bexI [rotated])
    then have "filter (\<lambda>f. fn_name f = helper)
                 (concat (map p_functions parsed_all)) \<noteq> []"
      by (simp add: filter_empty_conv)
    then show ?thesis
      unfolding symtab_eq [OF completes] add_functions_lookup by (auto split: list.splits)
  qed
  then obtain f where f: "?tab helper = Some f" by auto
  from symtab_value [OF completes f] only_a have "f = ?pa" by auto
  with f have tab: "?tab helper = Some ?pa" by simp
  have res: "resolved_called_file ?tab ?fc = ?pa"
    using tab by (simp add: resolved_called_file_def rel_to_nonempty)
  have 1: "Ingest_function \<lparr>fn_name = helper, fn_file = ?pa\<rparr> \<in> set ?calls"
    by (rule in_run [OF completes ra_in function_emitted [OF fa]])
  have 2: "Ingest_function \<lparr>fn_name = main, fn_file = ?pb\<rparr> \<in> set ?calls"
    by (rule in_run [OF completes rb_in function_emitted [OF fb]])
  have "Ingest_function_call main (fc_caller_file ?fc) (fc_called ?fc)
          (Some (resolved_called_file ?tab ?fc)) \<in> set ?calls"
    by (rule in_run [OF completes rb_in call_emitted [OF fc]]) (simp_all add: names(2))
  then have 3: "Ingest_function_call main ?pb helper (Some ?pa) \<in> set ?calls"
    by (simp add: res)
  have "Ingest_function_used_in (fc_called ?fc) (Some (resolved_called_file ?tab ?fc))
          (fc_caller_file ?fc) \<in> set ?calls"
    by (rule in_run [OF completes rb_in used_in_emitted [OF fc]])
  then have 4: "Ingest_function_used_in helper (Some ?pa) ?pb \<in> set ?calls"
    by (simp add: res)
  have 5: "Function_node helper ?pa \<in> set (g_nodes (store_after w repo_root False g))"
    by (rule store_after_nodes [OF 1]) simp
  have 6: "Function_node main ?pb \<in> set (g_nodes (store_after w repo_root False g))"
    by (rule store_after_nodes [OF 2]) simp
  have 7: "(Function_node main ?pb, CALLS, Function_node helper ?pa)
             \<in> set (g_edges (store_after w repo_root False g))"
    by (rule store_after_edges [OF 3]) (simp add: or_empty_def)
  have 8: "(Function_node helper ?pa, USED_IN, File_node ?pb)
             \<in> set (g_edges (store_after w repo_root False g))"
    by (rule store_after_edges [OF 4]) (simp add: or_empty_def)
  from 1 2 3 4 5 6 7 8 show ?thesis by blast
qed

theorem resolution_example_witness:
  "\<not> isl (first_pass py_world ''repo'')
   \<and> (''repo'', ''a.py'') \<in> set (scanned_files py_world ''repo'')
   \<and> (''repo'', ''b.py'') \<in> set (scanned_files py_world ''repo'')
   \<and> repo_rel py_world (path_join ''repo'' ''a.py'') = ''a.py''
   \<and> repo_rel py_world (path_join ''repo'' ''b.py'') = ''b.py''
   \<and> Ingest_function \<lparr>fn_name = ''helper'', fn_file = ''a.py''\<rparr>
       \<in> set (calls_made py_world ''repo'' False)
   \<and> Ingest_function \<lparr>fn_name = ''main'', fn_file = ''b.py''\<rparr>
       \<in> set (calls_made py_world ''repo'' False)
   \<and> Ingest_function_call ''main'' ''b.py'' ''helper'' (Some ''a.py'')
       \<in> set (calls_made py_world ''repo'' False)
   \<and> Ingest_function_used_in ''helper'' (Some ''a.py'') ''b.py''
       \<in> set (calls_made py_world ''repo'' False)
   \<and> Function_node ''helper'' ''a.py''
       \<in> set (g_nodes (store_after py_world ''repo'' False empty_graph))
   \<and> Function_node ''main'' ''b.py''
       \<in> set (g_nodes (store_after py_world ''repo'' False empty_graph))
   \<and> (Function_node ''main'' ''b.py'', CALLS, Function_node ''helper'' ''a.py'')
       \<in> set (g_edges (store_after py_world ''repo'' False empty_graph))
   \<and> (Function_node ''helper'' ''a.py'', USED_IN, File_node ''b.py'')
       \<in> set (g_edges (store_after py_world ''repo'' False empty_graph))"
proof -
  have sa: "(''repo'', ''a.py'') \<in> set (scanned_files py_world ''repo'')" by code_simp
  have sb: "(''repo'', ''b.py'') \<in> set (scanned_files py_world ''repo'')" by code_simp
  have ra: "recognised ''a.py''" by code_simp
  have rb: "recognised ''b.py''" by code_simp
  have pa: "EXT_LANG_MAP (snd (splitext (lower (path_join ''repo'' ''a.py'')))) = Some ''python''"
    by code_simp
  have pb: "EXT_LANG_MAP (snd (splitext (lower (path_join ''repo'' ''b.py'')))) = Some ''python''"
    by code_simp
  have oa: "open_read py_world Utf8_strict (path_join ''repo'' ''a.py'') = Some a_src"
    by code_simp
  have ob: "open_read py_world Utf8_strict (path_join ''repo'' ''b.py'') = Some b_src"
    by code_simp
  have ta: "ast_parse py_world a_src = Some a_tree" by code_simp
  have tb: "ast_parse py_world b_src = Some b_tree" by code_simp
  have da: "FunctionDef ''helper'' (Other []) [Other []] [] [] \<in> set (ast_walk a_tree)"
    by code_simp
  have db: "FunctionDef ''main'' (Other []) [Other [Call (Name ''helper'') []]] [] []
              \<in> set (ast_walk b_tree)"
    by code_simp
  have st: "Other [Call (Name ''helper'') []] \<in> set [Other [Call (Name ''helper'') []]]"
    by simp
  have cl: "Call (Name ''helper'') [] \<in> set (ast_walk (Other [Call (Name ''helper'') []]))"
    by code_simp
  have n1: "''helper'' \<noteq> []" and n2: "''main'' \<noteq> []" by simp_all
  have ea: "repo_rel py_world (path_join ''repo'' ''a.py'') = ''a.py''" by code_simp
  have eb: "repo_rel py_world (path_join ''repo'' ''b.py'') = ''b.py''" by code_simp
  have run: "\<not> isl (first_pass py_world ''repo'')" by code_simp
  have only: "\<forall>p \<in> set (fst (projr (first_pass py_world ''repo''))).
                \<forall>fu \<in> set (p_functions p).
                fn_name fu = ''helper'' \<longrightarrow> fn_file fu = repo_rel py_world (path_join ''repo'' ''a.py'')"
    by code_simp
  note t = resolution_example [OF completed [OF run] sa ra pa oa ta da sb rb pb ob tb db st cl
             n1 n2 only, of empty_graph]
  from t run sa sb ea eb show ?thesis by (simp only: ea eb simp_thms)
qed

subsection \<open>C2\<close>

text \<open>
  C2. For every call site of every record the second pass processes (the records
  \<open>parsed_all\<close> of a first pass that no exception ended), the resolved file is
  the symbol table's entry for the called name when there is one and the caller's file
  otherwise, and \<open>ingest_function_used_in\<close> is called with it, so the store holds the
  \<open>USED_IN\<close> relationship from the called function in that file to the caller's file,
  whether or not the call site names its caller.
\<close>

theorem call_site_resolution:
  assumes "first_pass w repo_root = Inr (parsed_all, func_name_to_file)"
    and "p \<in> set parsed_all" and "fc \<in> set (p_function_calls p)"
  shows "resolved_called_file func_name_to_file fc =
           (case func_name_to_file (fc_called fc) of
              None \<Rightarrow> fc_caller_file fc
            | Some f \<Rightarrow> f)
       \<and> Ingest_function_used_in (fc_called fc)
            (Some (resolved_called_file func_name_to_file fc)) (fc_caller_file fc)
           \<in> set (calls_made w repo_root False)
       \<and> (Function_node (fc_called fc) (resolved_called_file func_name_to_file fc),
           USED_IN, File_node (fc_caller_file fc))
           \<in> set (g_edges (store_after w repo_root False g))"
proof -
  let ?tab = "func_name_to_file"
  let ?c = "Ingest_function_used_in (fc_called fc) (Some (resolved_called_file ?tab fc))
              (fc_caller_file fc)"
  have 1: "resolved_called_file ?tab fc =
             (case ?tab (fc_called fc) of None \<Rightarrow> fc_caller_file fc | Some f \<Rightarrow> f)"
    by (rule resolved_in_run [OF assms(1)])
  have 2: "?c \<in> set (calls_made w repo_root False)"
    by (rule in_run [OF assms(1,2) used_in_emitted [OF assms(3)]])
  have 3: "(Function_node (fc_called fc) (resolved_called_file ?tab fc), USED_IN,
            File_node (fc_caller_file fc)) \<in> set (g_edges (store_after w repo_root False g))"
    by (rule store_after_edges [OF 2]) (simp add: or_empty_def)
  from 1 2 3 show ?thesis by blast
qed

theorem call_site_resolution_witness:
  "\<not> isl (first_pass py_world ''repo'')
   \<and> b_record \<in> set (fst (projr (first_pass py_world ''repo'')))
   \<and> main_call \<in> set (p_function_calls b_record)
   \<and> snd (projr (first_pass py_world ''repo'')) ''helper'' = Some ''a.py''
   \<and> (Function_node ''helper'' ''a.py'', USED_IN, File_node ''b.py'')
       \<in> set (g_edges (store_after py_world ''repo'' False empty_graph))
   \<and> \<not> isl (first_pass js_world ''repo'')
   \<and> app_record \<in> set (fst (projr (first_pass js_world ''repo'')))
   \<and> load_call \<in> set (p_function_calls app_record)
   \<and> snd (projr (first_pass js_world ''repo'')) ''load'' = None
   \<and> (Function_node ''load'' ''app.js'', USED_IN, File_node ''app.js'')
       \<in> set (g_edges (store_after js_world ''repo'' False empty_graph))"
proof -
  have rp: "\<not> isl (first_pass py_world ''repo'')" by code_simp
  have rj: "\<not> isl (first_pass js_world ''repo'')" by code_simp
  have b: "b_record \<in> set (fst (projr (first_pass py_world ''repo'')))" by code_simp
  have m: "main_call \<in> set (p_function_calls b_record)" by code_simp
  have t: "snd (projr (first_pass py_world ''repo'')) ''helper'' = Some ''a.py''" by code_simp
  have a: "app_record \<in> set (fst (projr (first_pass js_world ''repo'')))" by code_simp
  have l: "load_call \<in> set (p_function_calls app_record)" by code_simp
  have n: "snd (projr (first_pass js_world ''repo'')) ''load'' = None" by code_simp
  have mc: "fc_called main_call = ''helper''" "fc_caller_file main_call = ''b.py''"
    by (simp_all add: main_call_def)
  have lc: "fc_called load_call = ''load''" "fc_caller_file load_call = ''app.js''"
    by (simp_all add: load_call_def)
  note py = call_site_resolution [OF completed [OF rp] b m, of empty_graph]
  from py have 1: "(Function_node ''helper'' ''a.py'', USED_IN, File_node ''b.py'')
       \<in> set (g_edges (store_after py_world ''repo'' False empty_graph))"
    by (auto simp: mc t)
  note js = call_site_resolution [OF completed [OF rj] a l, of empty_graph]
  from js have 2: "(Function_node ''load'' ''app.js'', USED_IN, File_node ''app.js'')
       \<in> set (g_edges (store_after js_world ''repo'' False empty_graph))"
    by (auto simp: lc n)
  from rp rj b m t a l n 1 2 show ?thesis by blast
qed

subsection \<open>C3\<close>

text \<open>
  C3. When two files of the walk define a function of one name and no other file does,
  the symbol table after a first pass that no exception ended maps the name to one of the two files, the one
  \<open>os.walk\<close> yields later, and every call to that name is resolved to that file. The rule
  depends on nothing but the order of the walk: the run is a function of the tree as
  walked, so a second run over the same tree resolves the calls the same way.
\<close>

theorem symbol_collision_last_wins:
  assumes "first_pass w repo_root = Inr (parsed_all, func_name_to_file)"
    and "i < j" and "j < length parsed_all"
    and "\<exists>fu \<in> set (p_functions (parsed_all ! i)). fn_name fu = n"
    and "\<exists>fu \<in> set (p_functions (parsed_all ! j)). fn_name fu = n"
    and "\<forall>k < length parsed_all. k \<noteq> i \<and> k \<noteq> j \<longrightarrow>
           (\<forall>fu \<in> set (p_functions (parsed_all ! k)). fn_name fu \<noteq> n)"
  shows "func_name_to_file n = Some (fi_path (p_file (parsed_all ! j)))
       \<and> (\<forall>p \<in> set parsed_all. \<forall>fc \<in> set (p_function_calls p).
            fc_called fc = n \<longrightarrow>
              resolved_called_file func_name_to_file fc = fi_path (p_file (parsed_all ! j))
              \<and> Ingest_function_used_in n
                   (Some (fi_path (p_file (parsed_all ! j)))) (fc_caller_file fc)
                  \<in> set (calls_made w repo_root False))"
proof -
  let ?ps = "parsed_all"
  let ?tab = "func_name_to_file"
  let ?f = "fi_path (p_file (?ps ! j))"
  have pj: "?ps ! j \<in> set ?ps" using assms(3) by simp
  have keyed: "\<forall>fu \<in> set (p_functions (?ps ! j)). fn_file fu = ?f"
    using parsed_all_keyed(1) [OF assms(1) pj] by (simp add: keyed_by_def)
  from assms(5) obtain fu where fu: "fu \<in> set (p_functions (?ps ! j))" "fn_name fu = n"
    by blast
  have later: "\<forall>k < length ?ps. j < k \<longrightarrow> (\<forall>fu \<in> set (p_functions (?ps ! k)). fn_name fu \<noteq> n)"
    using assms(2,6) by auto
  have tab: "?tab n = Some ?f"
    unfolding symtab_eq [OF assms(1)] by (rule symtab_last_definer [OF assms(3) fu keyed later])
  have ne: "?f \<noteq> []" by (rule parsed_all_keyed(2) [OF assms(1) pj])
  have "resolved_called_file ?tab fc = ?f
        \<and> Ingest_function_used_in n (Some ?f) (fc_caller_file fc)
            \<in> set (calls_made w repo_root False)"
    if p: "p \<in> set ?ps" and fc: "fc \<in> set (p_function_calls p)" and n: "fc_called fc = n"
    for p fc
  proof -
    have r: "resolved_called_file ?tab fc = ?f"
      using tab ne n by (simp add: resolved_called_file_def)
    have "Ingest_function_used_in (fc_called fc) (Some (resolved_called_file ?tab fc))
            (fc_caller_file fc) \<in> set (calls_made w repo_root False)"
      by (rule in_run [OF assms(1) p used_in_emitted [OF fc]])
    with r n show ?thesis by simp
  qed
  with tab show ?thesis by blast
qed

theorem symbol_collision_last_wins_witness:
  "\<not> isl (first_pass dup_world ''repo'')
   \<and> length (fst (projr (first_pass dup_world ''repo''))) = 3
   \<and> fn_name (hd (p_functions (fst (projr (first_pass dup_world ''repo'')) ! 0))) = ''run''
   \<and> fn_name (hd (p_functions (fst (projr (first_pass dup_world ''repo'')) ! 1))) = ''run''
   \<and> fi_path (p_file (fst (projr (first_pass dup_world ''repo'')) ! 0)) = ''x.py''
   \<and> fi_path (p_file (fst (projr (first_pass dup_world ''repo'')) ! 1)) = ''y.py''
   \<and> snd (projr (first_pass dup_world ''repo'')) ''run'' = Some ''y.py''
   \<and> go_call \<in> set (p_function_calls (fst (projr (first_pass dup_world ''repo'')) ! 2))
   \<and> resolved_called_file (snd (projr (first_pass dup_world ''repo''))) go_call = ''y.py''
   \<and> Ingest_function_used_in ''run'' (Some ''y.py'') ''z.py''
       \<in> set (calls_made dup_world ''repo'' False)"
proof -
  let ?ps = "fst (projr (first_pass dup_world ''repo''))"
  let ?tab = "snd (projr (first_pass dup_world ''repo''))"
  have run: "\<not> isl (first_pass dup_world ''repo'')" by code_simp
  have len: "length ?ps = 3" by code_simp
  have h0: "fn_name (hd (p_functions (?ps ! 0))) = ''run''" by code_simp
  have h1: "fn_name (hd (p_functions (?ps ! 1))) = ''run''" by code_simp
  have p0: "fi_path (p_file (?ps ! 0)) = ''x.py''" by code_simp
  have p1: "fi_path (p_file (?ps ! 1)) = ''y.py''" by code_simp
  have a1: "(0::nat) < 1" by simp
  have a2: "1 < length ?ps" by (simp add: len)
  have a3: "\<exists>fu \<in> set (p_functions (?ps ! 0)). fn_name fu = ''run''" by code_simp
  have a4: "\<exists>fu \<in> set (p_functions (?ps ! 1)). fn_name fu = ''run''" by code_simp
  have a5: "\<forall>k < length ?ps. k \<noteq> 0 \<and> k \<noteq> 1 \<longrightarrow>
           (\<forall>fu \<in> set (p_functions (?ps ! k)). fn_name fu \<noteq> ''run'')"
  proof (intro allI impI)
    fix k assume "k < length ?ps" "k \<noteq> 0 \<and> k \<noteq> 1"
    then have k: "k = 2" by (simp add: len)
    show "\<forall>fu \<in> set (p_functions (?ps ! k)). fn_name fu \<noteq> ''run''"
      unfolding k by code_simp
  qed
  have g: "go_call \<in> set (p_function_calls (?ps ! 2))" by code_simp
  have z: "?ps ! 2 \<in> set ?ps" by (simp add: len)
  have gc: "fc_called go_call = ''run''" "fc_caller_file go_call = ''z.py''"
    by (simp_all add: go_call_def)
  note t = symbol_collision_last_wins [OF completed [OF run] a1 a2 a3 a4 a5]
  from t have tab: "?tab ''run'' = Some ''y.py''"
    by (simp only: p1)
  from t have "\<forall>p \<in> set ?ps. \<forall>fc \<in> set (p_function_calls p). fc_called fc = ''run'' \<longrightarrow>
      resolved_called_file ?tab fc = ''y.py''
      \<and> Ingest_function_used_in ''run'' (Some ''y.py'') (fc_caller_file fc)
          \<in> set (calls_made dup_world ''repo'' False)"
    by (simp only: p1) (rule conjunct2)
  with z g gc(1) have "resolved_called_file ?tab go_call = ''y.py''
     \<and> Ingest_function_used_in ''run'' (Some ''y.py'') (fc_caller_file go_call)
       \<in> set (calls_made dup_world ''repo'' False)"
    by blast
  then have "resolved_called_file ?tab go_call = ''y.py''
     \<and> Ingest_function_used_in ''run'' (Some ''y.py'') ''z.py''
       \<in> set (calls_made dup_world ''repo'' False)"
    by (simp only: gc)
  with run len h0 h1 p0 p1 tab g show ?thesis by blast
qed

subsection \<open>C4\<close>




subsection \<open>C5\<close>

text \<open>
  C5. Every call site of the heuristic lexical extractor has an unknown caller: processing
  its record in the second pass makes no \<open>ingest_function_call\<close>, leaves the \<open>CALLS\<close>
  relationships of the store as they were, and makes one \<open>ingest_function_used_in\<close> call
  per call site, whatever functions and classes the record defines.
\<close>

theorem heuristic_file_adds_no_calls_edge:
  assumes "parse_js_like_file w filepath lang_key = Some r"
  shows "(\<forall>fc \<in> set (p_function_calls r). fc_caller fc = None)
       \<and> (\<forall>c \<in> set (ingest_parsed w repo_root tab r). \<not> is_function_call c)
       \<and> calls_edges (perform_all (ingest_parsed w repo_root tab r) g) = calls_edges g
       \<and> (\<forall>fc \<in> set (p_function_calls r).
            Ingest_function_used_in (fc_called fc) (Some (resolved_called_file tab fc))
              (fc_caller_file fc) \<in> set (ingest_parsed w repo_root tab r))"
proof -
  have 1: "\<forall>fc \<in> set (p_function_calls r). fc_caller fc = None"
    using assms by (auto dest: js_callers)
  have 2: "\<forall>c \<in> set (ingest_parsed w repo_root tab r). \<not> is_function_call c"
    using 1 by (auto dest: ingest_parsed_no_call)
  have 3: "calls_edges (perform_all (ingest_parsed w repo_root tab r) g) = calls_edges g"
    using 2 by (rule perform_all_calls_edges)
  have 4: "\<forall>fc \<in> set (p_function_calls r).
            Ingest_function_used_in (fc_called fc) (Some (resolved_called_file tab fc))
              (fc_caller_file fc) \<in> set (ingest_parsed w repo_root tab r)"
    by (auto intro: used_in_emitted)
  from 1 2 3 4 show ?thesis by blast
qed

theorem heuristic_file_adds_no_calls_edge_witness:
  "parse_js_like_file js_world ''repo/app.js'' ''javascript'' = Some app_record
   \<and> p_functions app_record \<noteq> [] \<and> p_classes app_record \<noteq> []
   \<and> list_all (\<lambda>fc. fc_caller fc = None) (p_function_calls app_record)
   \<and> list_all (\<lambda>c. \<not> is_function_call c)
         (ingest_parsed js_world ''repo'' (snd (projr (first_pass js_world ''repo''))) app_record)
   \<and> calls_edges (perform_all
         (ingest_parsed js_world ''repo'' (snd (projr (first_pass js_world ''repo''))) app_record)
         empty_graph) = []
   \<and> Ingest_function_used_in ''greet'' (Some ''util.js'') ''app.js''
        \<in> set (ingest_parsed js_world ''repo'' (snd (projr (first_pass js_world ''repo''))) app_record)"
proof -
  have h: "parse_js_like_file js_world ''repo/app.js'' ''javascript'' = Some app_record"
    by code_simp
  have f: "p_functions app_record \<noteq> [] \<and> p_classes app_record \<noteq> []"
    by (simp add: app_record_def)
  have e: "calls_edges empty_graph = []"
    by (simp add: calls_edges_def empty_graph_def)
  have u: "Ingest_function_used_in ''greet'' (Some ''util.js'') ''app.js''
        \<in> set (ingest_parsed js_world ''repo'' (snd (projr (first_pass js_world ''repo''))) app_record)"
    by code_simp
  from heuristic_file_adds_no_calls_edge
         [OF h, of "''repo''" "snd (projr (first_pass js_world ''repo''))" empty_graph]
  show ?thesis using h f e u by (simp add: list_all_iff)
qed

subsection \<open>C6\<close>

text \<open>
  C6: the probe is \<open>os.path.join(repo_root, candidate + e)\<close>, and \<open>os.path.join\<close> discards
  \<open>repo_root\<close> when the second path is absolute. In \<open>js_world\<close> the file \<open>repo/app.js\<close>
  holds \<open>import u from "./util"\<close> and \<open>repo/util.js\<close> exists; the import string becomes
  \<open>//util\<close>, the five probes are \<open>//util.py\<close>, ..., at the file system's root and not
  under \<open>repo\<close>, none exists, and no \<open>ingest_import\<close> call is made. In \<open>outside_world\<close>,
  the same tree on a machine with a file \<open>/util.js\<close>, the run links \<open>app.js\<close> to
  \<open>../../util.js\<close>, a file outside the tree.
\<close>

theorem relative_import_probes_outside_root:
  "p_imports app_record = [''./util'']
   \<and> isfile js_world ''repo/util.js''
   \<and> import_candidate ''./util'' = ''//util''
   \<and> map (probe ''repo'' (import_candidate ''./util'')) IMPORT_EXTS
       = [''//util.py'', ''//util.js'', ''//util.ts'', ''//util.jsx'', ''//util.tsx'']
   \<and> resolve_import js_world ''repo'' ''./util'' = None
   \<and> filter is_ingest_import (calls_made js_world ''repo'' False) = []
   \<and> filter is_ingest_import (calls_made outside_world ''repo'' False)
       = [Ingest_import ''app.js'' ''../../util.js'']"
proof -
  have 1: "p_imports app_record = [''./util'']" by (simp add: app_record_def)
  have 2: "isfile js_world ''repo/util.js''" by code_simp
  have 3: "import_candidate ''./util'' = ''//util''" by code_simp
  have 4: "map (probe ''repo'' (import_candidate ''./util'')) IMPORT_EXTS
       = [''//util.py'', ''//util.js'', ''//util.ts'', ''//util.jsx'', ''//util.tsx'']"
    by code_simp
  have 5: "resolve_import js_world ''repo'' ''./util'' = None" by code_simp
  have 6: "filter is_ingest_import (calls_made js_world ''repo'' False) = []"
    by code_simp
  have 7: "filter is_ingest_import (calls_made outside_world ''repo'' False)
       = [Ingest_import ''app.js'' ''../../util.js'']"
    by code_simp
  from 1 2 3 4 5 6 7 show ?thesis by blast
qed

subsection \<open>C7\<close>

text \<open>
  C7, as stated, fails: the extractor appends one Endpoint record per matching decorator.
  In \<open>api_world\<close> the file \<open>api.py\<close> holds one definition of \<open>list_items\<close>, under
  \<open>@router.get("/items")\<close> and \<open>@router.get("/items/")\<close>, and the extractor returns two
  Endpoint records (\<open>list_items\<close>, \<open>api.py\<close>, \<open>get\<close>) for it, not one.
\<close>

theorem one_endpoint_record_counterexample:
  "parse_python_file api_world ''repo/api.py'' = Inr (Some api_record)
   \<and> count_list (ast_walk api_tree) list_items_def = 1
   \<and> length (filter (\<lambda>e. ep_name e = ''list_items'' \<and> ep_decorator e = ''get'')
         (p_endpoints api_record)) = 2"
proof -
  have 1: "parse_python_file api_world ''repo/api.py'' = Inr (Some api_record)" by code_simp
  have 2: "count_list (ast_walk api_tree) list_items_def = 1" by code_simp
  have 3: "length (filter (\<lambda>e. ep_name e = ''list_items'' \<and> ep_decorator e = ''get'')
         (p_endpoints api_record)) = 2"
    by (simp add: api_record_def)
  from 1 2 3 show ?thesis by blast
qed

text \<open>
  C7, amended. For every function definition the native Python extractor extracts, each
  call-style decorator whose attribute name, lower-cased, is one of \<open>get\<close>, \<open>post\<close>,
  \<open>put\<close>, \<open>delete\<close>, \<open>patch\<close> produces one Endpoint record with that handler-kind, carrying
  the function's name and file (so two such decorators of one kind give two equal
  records); every such record is passed to \<open>ingest_endpoint\<close>, and after a full run (one
  whose first pass no exception ends) on a store without duplicates there is exactly one Endpoint node (name, file, kind), with
  exactly one \<open>HANDLED_BY\<close> relationship to the Function (name, file). A function with no
  such decorator produces no Endpoint record.
\<close>

theorem endpoints_per_decorator:
  assumes completes: "first_pass w repo_root = Inr (parsed_all, func_name_to_file)"
    and scanned: "(dir, fname) \<in> set (scanned_files w repo_root)" "recognised fname"
    and python: "EXT_LANG_MAP (snd (splitext (lower (path_join dir fname)))) = Some ''python''"
    and read_ok: "open_read w Utf8_strict (path_join dir fname) = Some source"
    and parse_ok: "ast_parse w source = Some tree"
    and func: "FunctionDef name args body decorator_list rest \<in> set (ast_walk tree)"
    and store: "distinct (g_nodes g)" "distinct (g_edges g)"
  shows "(\<forall>e \<in> set (node_endpoints (repo_rel w (path_join dir fname))
                     (FunctionDef name args body decorator_list rest)).
            ep_name e = name \<and> ep_file e = repo_rel w (path_join dir fname)
            \<and> Ingest_endpoint e \<in> set (calls_made w repo_root False))
       \<and> (\<forall>kind. length (filter (\<lambda>e. ep_decorator e = kind)
                      (node_endpoints (repo_rel w (path_join dir fname))
                         (FunctionDef name args body decorator_list rest)))
                  = length (filter (is_route kind) decorator_list))
       \<and> (\<forall>kind. (\<exists>dec \<in> set decorator_list. is_route kind dec) \<longrightarrow>
             count_list (g_nodes (store_after w repo_root False g))
               (Endpoint_node name (repo_rel w (path_join dir fname)) kind) = 1
             \<and> count_list (g_edges (store_after w repo_root False g))
                 (Endpoint_node name (repo_rel w (path_join dir fname)) kind, HANDLED_BY,
                  Function_node name (repo_rel w (path_join dir fname))) = 1)
       \<and> ((\<forall>dec \<in> set decorator_list. \<forall>kind. \<not> is_route kind dec) \<longrightarrow>
             node_endpoints (repo_rel w (path_join dir fname))
               (FunctionDef name args body decorator_list rest) = [])"
proof -
  let ?rel = "repo_rel w (path_join dir fname)"
  let ?node = "FunctionDef name args body decorator_list rest"
  let ?G = "store_after w repo_root False g"
  obtain p where p_in: "p \<in> set parsed_all"
      and p_rec: "parse_or_degenerate w repo_root (path_join dir fname) = Inr p"
    by (rule scanned_record [OF completes scanned])
  have p: "parse_python_file w (path_join dir fname) = Inr (Some p)"
    by (rule python_record [OF python read_ok parse_ok p_rec])
  have emitted: "Ingest_endpoint e \<in> set (calls_made w repo_root False)"
    if "e \<in> set (node_endpoints ?rel ?node)" for e
  proof -
    have "e \<in> set (p_endpoints p)"
      by (rule python_endpoint [OF read_ok parse_ok func that p])
    then show ?thesis by (rule in_run [OF completes p_in endpoint_emitted])
  qed
  have 1: "\<forall>e \<in> set (node_endpoints ?rel ?node).
            ep_name e = name \<and> ep_file e = ?rel
            \<and> Ingest_endpoint e \<in> set (calls_made w repo_root False)"
    using emitted by (auto dest: node_endpoints_key)
  have 2: "\<forall>kind. length (filter (\<lambda>e. ep_decorator e = kind) (node_endpoints ?rel ?node))
                  = length (filter (is_route kind) decorator_list)"
    by (simp add: node_endpoints_count)
  have 3: "count_list (g_nodes ?G) (Endpoint_node name ?rel kind) = 1
         \<and> count_list (g_edges ?G)
             (Endpoint_node name ?rel kind, HANDLED_BY, Function_node name ?rel) = 1"
    if "\<exists>dec \<in> set decorator_list. is_route kind dec" for kind
  proof -
    from that obtain dec where dec: "dec \<in> set decorator_list" "is_route kind dec" by blast
    let ?e = "\<lparr>ep_name = name, ep_file = ?rel, ep_decorator = kind\<rparr>"
    have "?e \<in> set (node_endpoints ?rel ?node)"
      by (rule node_endpoints_member [OF dec])
    then have c: "Ingest_endpoint ?e \<in> set (calls_made w repo_root False)"
      by (rule emitted)
    have n: "Endpoint_node name ?rel kind \<in> set (g_nodes ?G)"
      by (rule store_after_nodes [OF c]) simp
    have e: "(Endpoint_node name ?rel kind, HANDLED_BY, Function_node name ?rel)
               \<in> set (g_edges ?G)"
      by (rule store_after_edges [OF c]) simp
    from n e store show ?thesis
      by (simp add: count_list_distinct store_after_distinct)
  qed
  have 4: "node_endpoints ?rel ?node = []"
    if none: "\<forall>dec \<in> set decorator_list. \<forall>kind. \<not> is_route kind dec"
  proof -
    have "length (filter (\<lambda>e. ep_decorator e = kind) (node_endpoints ?rel ?node)) = 0" for kind
      using none by (simp add: node_endpoints_count)
    then have "\<forall>e \<in> set (node_endpoints ?rel ?node). ep_decorator e \<noteq> kind" for kind
      by (simp add: filter_empty_conv)
    then show ?thesis by (cases "node_endpoints ?rel ?node") auto
  qed
  from 1 2 3 4 show ?thesis by blast
qed

theorem endpoints_per_decorator_witness:
  "\<not> isl (first_pass api_world ''repo'')
   \<and> (''repo'', ''api.py'') \<in> set (scanned_files api_world ''repo'')
   \<and> list_items_def \<in> set (ast_walk api_tree)
   \<and> plain_def \<in> set (ast_walk api_tree)
   \<and> length (filter (\<lambda>e. ep_decorator e = ''get'') (node_endpoints ''api.py'' list_items_def)) = 2
   \<and> count_list (g_nodes (store_after api_world ''repo'' False empty_graph))
        (Endpoint_node ''list_items'' ''api.py'' ''get'') = 1
   \<and> count_list (g_edges (store_after api_world ''repo'' False empty_graph))
        (Endpoint_node ''list_items'' ''api.py'' ''get'', HANDLED_BY,
         Function_node ''list_items'' ''api.py'') = 1
   \<and> node_endpoints ''api.py'' plain_def = []"
proof -
  let ?decs = "[Call (Attribute (Name ''router'') ''get'') [Other []],
                Call (Attribute (Name ''router'') ''get'') [Other []]]"
  have run: "\<not> isl (first_pass api_world ''repo'')" by code_simp
  have s: "(''repo'', ''api.py'') \<in> set (scanned_files api_world ''repo'')" by code_simp
  have r: "recognised ''api.py''" by code_simp
  have py: "EXT_LANG_MAP (snd (splitext (lower (path_join ''repo'' ''api.py'')))) = Some ''python''"
    by code_simp
  have o: "open_read api_world Utf8_strict (path_join ''repo'' ''api.py'') = Some api_src"
    by code_simp
  have t: "ast_parse api_world api_src = Some api_tree" by code_simp
  have li: "list_items_def \<in> set (ast_walk api_tree)" by code_simp
  have pl: "plain_def \<in> set (ast_walk api_tree)" by code_simp
  have li': "FunctionDef ''list_items'' (Other []) [Other [Call (Name ''fetch'') []]] ?decs []
               \<in> set (ast_walk api_tree)"
    using li by (simp only: list_items_def_def)
  have pl': "FunctionDef ''plain'' (Other []) [Other []] [] [] \<in> set (ast_walk api_tree)"
    using pl by (simp only: plain_def_def)
  have d1: "distinct (g_nodes empty_graph)" and d2: "distinct (g_edges empty_graph)"
    by (simp_all add: empty_graph_def)
  have rel: "repo_rel api_world (path_join ''repo'' ''api.py'') = ''api.py''" by code_simp
  have routes: "length (filter (is_route ''get'') ?decs) = 2" by code_simp
  have some: "\<exists>dec \<in> set ?decs. is_route ''get'' dec" by code_simp
  have none: "\<forall>dec \<in> set []. \<forall>kind. \<not> is_route kind dec" by simp
  note a = endpoints_per_decorator [OF completed [OF run] s r py o t li' d1 d2]
  note b = endpoints_per_decorator [OF completed [OF run] s r py o t pl' d1 d2]
  from a have "length (filter (\<lambda>e. ep_decorator e = ''get'')
                 (node_endpoints ''api.py'' list_items_def)) = length (filter (is_route ''get'') ?decs)"
    by (auto simp only: rel list_items_def_def)
  then have 1: "length (filter (\<lambda>e. ep_decorator e = ''get'')
                 (node_endpoints ''api.py'' list_items_def)) = 2"
    by (simp only: routes)
  from a some have 2: "count_list (g_nodes (store_after api_world ''repo'' False empty_graph))
        (Endpoint_node ''list_items'' ''api.py'' ''get'') = 1
   \<and> count_list (g_edges (store_after api_world ''repo'' False empty_graph))
        (Endpoint_node ''list_items'' ''api.py'' ''get'', HANDLED_BY,
         Function_node ''list_items'' ''api.py'') = 1"
    by (auto simp only: rel)
  from b none have 3: "node_endpoints ''api.py'' plain_def = []"
    by (auto simp only: rel plain_def_def)
  from run s li pl 1 2 3 show ?thesis by blast
qed

subsection \<open>C8\<close>



subsection \<open>C9\<close>

text \<open>
  C9. In every \<open>ingest_function_call\<close> and \<open>ingest_function_used_in\<close> call of a run the
  caller's file is a non-empty relative path and the resolved file of the called function
  is a non-empty string, so \<open>called_file or ""\<close> never yields the empty-string sentinel
  there.
\<close>

theorem resolved_file_never_empty:
  assumes "Ingest_function_call caller caller_file called called_file
             \<in> set (calls_made w repo_root dry_run)
           \<or> Ingest_function_used_in called called_file caller_file
             \<in> set (calls_made w repo_root dry_run)"
  shows "caller_file \<noteq> [] \<and> \<not> startswith caller_file ''/''
       \<and> (\<exists>f. called_file = Some f \<and> f \<noteq> []) \<and> or_empty called_file \<noteq> []"
proof -
  from assms obtain c where c_in: "c \<in> set (calls_made w repo_root dry_run)"
    and c_eq: "c = Ingest_function_call caller caller_file called called_file
               \<or> c = Ingest_function_used_in called called_file caller_file"
    by blast
  from c_in obtain parsed_all func_name_to_file p
    where completes: "first_pass w repo_root = Inr (parsed_all, func_name_to_file)"
      and p: "p \<in> set parsed_all"
      and cp: "c \<in> set (ingest_parsed w repo_root func_name_to_file p)"
    by (rule run_calls_origin)
  from c_eq cp obtain fc where fc: "fc \<in> set (p_function_calls p)"
    and cf: "caller_file = fc_caller_file fc"
    and res: "called_file = Some (resolved_called_file func_name_to_file fc)"
    by (auto dest: function_call_origin used_in_origin)
  have path: "caller_file = fi_path (p_file p)"
    using caller_file_of_record [OF completes p fc] cf by simp
  have ne: "caller_file \<noteq> []"
    using parsed_all_keyed(2) [OF completes p] path by simp
  have rel: "\<not> startswith caller_file ''/''"
    using parsed_all_relative [OF completes p] path by simp
  have "resolved_called_file func_name_to_file fc \<noteq> []"
    using ne cf by (simp add: resolved_nonempty)
  with res ne rel show ?thesis by (simp add: or_empty_def)
qed

theorem resolved_file_never_empty_witness:
  "Ingest_function_call ''main'' ''b.py'' ''helper'' (Some ''a.py'')
     \<in> set (calls_made py_world ''repo'' False)
   \<and> Ingest_function_used_in ''helper'' (Some ''a.py'') ''b.py''
     \<in> set (calls_made py_world ''repo'' False)
   \<and> \<not> startswith ''b.py'' ''/'' \<and> or_empty (Some ''a.py'') \<noteq> []"
proof -
  have 1: "Ingest_function_call ''main'' ''b.py'' ''helper'' (Some ''a.py'')
     \<in> set (calls_made py_world ''repo'' False)"
    by code_simp
  have 2: "Ingest_function_used_in ''helper'' (Some ''a.py'') ''b.py''
     \<in> set (calls_made py_world ''repo'' False)"
    by code_simp
  from resolved_file_never_empty [of "''main''" "''b.py''" "''helper''" "Some ''a.py''" py_world "''repo''" False] 1
    resolved_file_never_empty [of "''main''" "''b.py''" "''helper''" "Some ''a.py''" py_world "''repo''" False] 2
  show ?thesis using 1 2 by blast
qed

subsection \<open>C10\<close>

text \<open>
  C10. Only the native Python extractor produces Endpoint records: whatever the file, a
  result the grammar-based extractor returns and a result the heuristic extractor returns
  have an empty \<open>endpoints\<close> list.
\<close>

theorem endpoints_only_from_python:
  "(parse_with_treesitter w filepath lang_key = Inr (Some r) \<longrightarrow> p_endpoints r = [])
   \<and> (parse_js_like_file w filepath lang_key = Some r \<longrightarrow> p_endpoints r = [])"
proof (intro conjI impI)
  assume "parse_with_treesitter w filepath lang_key = Inr (Some r)"
  then show "p_endpoints r = []"
    by (auto simp: parse_with_treesitter_def Let_def split: option.splits sum.splits)
next
  assume "parse_js_like_file w filepath lang_key = Some r"
  then show "p_endpoints r = []"
    by (auto simp: parse_js_like_file_def Let_def split: option.splits)
qed

theorem endpoints_only_from_python_witness:
  "parse_with_treesitter ts_world ''repo/f.js'' ''javascript'' = Inr (Some f_record)
   \<and> p_endpoints f_record = []
   \<and> parse_js_like_file js_world ''repo/app.js'' ''javascript'' = Some app_record
   \<and> p_endpoints app_record = []"
proof -
  have t: "parse_with_treesitter ts_world ''repo/f.js'' ''javascript'' = Inr (Some f_record)"
    by code_simp
  have j: "parse_js_like_file js_world ''repo/app.js'' ''javascript'' = Some app_record"
    by code_simp
  from endpoints_only_from_python [of ts_world "''repo/f.js''" "''javascript''" f_record] t
  have 1: "p_endpoints f_record = []" by blast
  from endpoints_only_from_python [of js_world "''repo/app.js''" "''javascript''" app_record] j
  have 2: "p_endpoints app_record = []" by blast
  from t j 1 2 show ?thesis by blast
qed

end
